theory Spec2Isabelle
  imports Main
begin

section \<open>Python strings\<close>

text \<open>
  A Python \<open>str\<close> is modelled as a \<^typ>\<open>string\<close>; a character is its code point, so the
  model covers the texts whose code points lie below 256 (ASCII and Latin-1). The
  character classes below are the ones CPython uses on that range.
\<close>

definition nl :: char where "nl = CHR 0x0A"
definition cr :: char where "cr = CHR 0x0D"
definition dquote :: char where "dquote = CHR 0x22"
definition comma :: char where "comma = CHR 0x2C"
definition backtick :: char where "backtick = CHR 0x60"
definition backslash :: char where "backslash = CHR 0x5C"
definition underscore :: char where "underscore = CHR 0x5F"

text \<open>\<open>str.isspace\<close> on one character: TAB, LF, VT, FF, CR, the separators 0x1C..0x1F,
  the blank, NEL (0x85) and the no-break space (0xA0).\<close>

definition py_isspace :: "char \<Rightarrow> bool" where
  "py_isspace c = (c \<in> set [CHR 0x09, CHR 0x0A, CHR 0x0B, CHR 0x0C, CHR 0x0D,
                               CHR 0x1C, CHR 0x1D, CHR 0x1E, CHR 0x1F, CHR 0x20,
                               CHR 0x85, CHR 0xA0])"

text \<open>\<open>s.strip()\<close> and \<open>s.strip(chars)\<close>.\<close>

definition strip_with :: "(char \<Rightarrow> bool) \<Rightarrow> string \<Rightarrow> string" where
  "strip_with p s = rev (dropWhile p (rev (dropWhile p s)))"

definition strip :: "string \<Rightarrow> string" where
  "strip s = strip_with py_isspace s"

definition strip_chars :: "string \<Rightarrow> string \<Rightarrow> string" where
  "strip_chars cs s = strip_with (\<lambda>c. c \<in> set cs) s"

text \<open>\<open>str.lower\<close>: the ASCII capitals and the Latin-1 capitals 0xC0..0xDE (without the
  multiplication sign 0xD7) move to their small letters, 32 code points up; every other
  character below 256 stays.\<close>

definition upper_letters :: string where
  "upper_letters = ''ABCDEFGHIJKLMNOPQRSTUVWXYZ'' @
     [CHR 0xC0, CHR 0xC1, CHR 0xC2, CHR 0xC3, CHR 0xC4, CHR 0xC5, CHR 0xC6, CHR 0xC7,
      CHR 0xC8, CHR 0xC9, CHR 0xCA, CHR 0xCB, CHR 0xCC, CHR 0xCD, CHR 0xCE, CHR 0xCF,
      CHR 0xD0, CHR 0xD1, CHR 0xD2, CHR 0xD3, CHR 0xD4, CHR 0xD5, CHR 0xD6,
      CHR 0xD8, CHR 0xD9, CHR 0xDA, CHR 0xDB, CHR 0xDC, CHR 0xDD, CHR 0xDE]"

definition lower_letters :: string where
  "lower_letters = ''abcdefghijklmnopqrstuvwxyz'' @
     [CHR 0xE0, CHR 0xE1, CHR 0xE2, CHR 0xE3, CHR 0xE4, CHR 0xE5, CHR 0xE6, CHR 0xE7,
      CHR 0xE8, CHR 0xE9, CHR 0xEA, CHR 0xEB, CHR 0xEC, CHR 0xED, CHR 0xEE, CHR 0xEF,
      CHR 0xF0, CHR 0xF1, CHR 0xF2, CHR 0xF3, CHR 0xF4, CHR 0xF5, CHR 0xF6,
      CHR 0xF8, CHR 0xF9, CHR 0xFA, CHR 0xFB, CHR 0xFC, CHR 0xFD, CHR 0xFE]"

definition lower_char :: "char \<Rightarrow> char" where
  "lower_char c =
     (case map_of (zip upper_letters lower_letters) c of
        Some d \<Rightarrow> d
      | None \<Rightarrow> c)"

definition lower :: "string \<Rightarrow> string" where
  "lower s = map lower_char s"

definition startswith :: "string \<Rightarrow> string \<Rightarrow> bool" where
  "startswith s p = (take (length p) s = p)"

definition endswith :: "string \<Rightarrow> string \<Rightarrow> bool" where
  "endswith s p = (length p \<le> length s \<and> drop (length s - length p) s = p)"

text \<open>\<open>sep.join(xs)\<close> for the separator \<open>","\<close>.\<close>

fun join_comma :: "string list \<Rightarrow> string" where
  "join_comma [] = []"
| "join_comma [x] = x"
| "join_comma (x # y # ys) = x @ comma # join_comma (y # ys)"

subsection \<open>\<open>int(s)\<close> on a string\<close>

text \<open>
  \<open>int\<close> of a \<open>str\<close> in base 10: surrounding whitespace is dropped, one sign is allowed,
  then at least one decimal digit, with single underscores allowed between digits.
  A literal of more than 4300 digits is refused (the interpreter's default limit).
  Every failure is a \<open>ValueError\<close>, the value \<open>None\<close> here.

  The whitespace that \<open>int\<close> drops is narrower than that of \<open>str.strip\<close>: TAB, LF, VT,
  FF, CR and the blank, and of the characters from 127 on those that are whitespace
  (NEL and the no-break space); the separators 0x1C..0x1F are not dropped.
\<close>

definition int_isspace :: "char \<Rightarrow> bool" where
  "int_isspace c = (c \<in> set [CHR 0x09, CHR 0x0A, CHR 0x0B, CHR 0x0C, CHR 0x0D, CHR 0x20,
                                CHR 0x85, CHR 0xA0])"

definition is_digit :: "char \<Rightarrow> bool" where
  "is_digit c = (c \<in> set ''0123456789'')"

definition digit_val :: "char \<Rightarrow> int" where
  "digit_val c =
     (case map_of (zip ''0123456789'' [0, 1, 2, 3, 4, 5, 6, 7, 8, 9]) c of
        Some d \<Rightarrow> d
      | None \<Rightarrow> 0)"

definition int_max_str_digits :: nat where
  "int_max_str_digits = 4300"

text \<open>The scan over digits and underscores; \<open>prev_us\<close> tells that the previous character
  was an underscore. The result is the list of digits, or \<open>None\<close> on a bad character,
  a doubled underscore or a trailing underscore.\<close>

fun scan_digits :: "bool \<Rightarrow> string \<Rightarrow> string option" where
  "scan_digits prev_us [] = (if prev_us then None else Some [])"
| "scan_digits prev_us (c # cs) =
     (if c = underscore then (if prev_us then None else scan_digits True cs)
      else if is_digit c then map_option ((#) c) (scan_digits False cs)
      else None)"

definition digits_value :: "string \<Rightarrow> int" where
  "digits_value ds = foldl (\<lambda>acc c. 10 * acc + digit_val c) 0 ds"

definition py_int :: "string \<Rightarrow> int option" where
  "py_int s =
     (let t = strip_with int_isspace s;
          neg = (t \<noteq> [] \<and> hd t = CHR ''-'');
          body = (if t \<noteq> [] \<and> (hd t = CHR ''-'' \<or> hd t = CHR ''+'') then tl t else t)
      in if body = [] \<or> hd body = underscore then None
         else (case scan_digits False body of
                 None \<Rightarrow> None
               | Some ds \<Rightarrow>
                   if int_max_str_digits < length ds then None
                   else Some (if neg then - digits_value ds else digits_value ds)))"

section \<open>The \<open>csv\<close> reader\<close>

text \<open>
  \<open>csv.reader(io.StringIO(text))\<close> with the default dialect: delimiter \<open>,\<close>, quote
  character \<open>"\<close>, doubled quotes inside a quoted field, no escape character, not strict.
  \<open>io.StringIO\<close> hands the text over line by line, each line ending after its line feed.
\<close>

fun readlines_from :: "string \<Rightarrow> string \<Rightarrow> string list" where
  "readlines_from acc [] = (if acc = [] then [] else [rev acc])"
| "readlines_from acc (c # cs) =
     (if c = nl then rev (c # acc) # readlines_from [] cs
      else readlines_from (c # acc) cs)"

definition readlines :: "string \<Rightarrow> string list" where
  "readlines text = readlines_from [] text"

datatype parser_state =
  START_RECORD | START_FIELD | IN_FIELD | IN_QUOTED_FIELD | QUOTE_IN_QUOTED_FIELD | EAT_CRNL

text \<open>The reader object: its state, the fields saved so far and the field being read.
  The states for an escape character are left out: the default dialect has none.\<close>

record reader =
  state_r :: parser_state
  fields_r :: "string list"
  field_r :: string

datatype csv_error = FieldTooLong | NewlineInUnquotedField

text \<open>One input of the state machine: a character of the line, or the end of the line.\<close>

datatype csv_input = Ch char | EOL

definition field_limit :: nat where
  "field_limit = 131072"

definition parse_reset :: reader where
  "parse_reset = \<lparr>state_r = START_RECORD, fields_r = [], field_r = []\<rparr>"

definition parse_save_field :: "reader \<Rightarrow> reader" where
  "parse_save_field r = r\<lparr>fields_r := fields_r r @ [field_r r], field_r := []\<rparr>"

definition parse_add_char :: "reader \<Rightarrow> char \<Rightarrow> csv_error + reader" where
  "parse_add_char r c =
     (if field_limit \<le> length (field_r r) then Inl FieldTooLong
      else Inr (r\<lparr>field_r := field_r r @ [c]\<rparr>))"

definition is_eol_char :: "csv_input \<Rightarrow> bool" where
  "is_eol_char i = (i = Ch nl \<or> i = Ch cr)"

definition start_field :: "reader \<Rightarrow> csv_input \<Rightarrow> csv_error + reader" where
  "start_field r i =
     (case i of
        EOL \<Rightarrow> Inr ((parse_save_field r)\<lparr>state_r := START_RECORD\<rparr>)
      | Ch c \<Rightarrow>
          if c = nl \<or> c = cr then Inr ((parse_save_field r)\<lparr>state_r := EAT_CRNL\<rparr>)
          else if c = dquote then Inr (r\<lparr>state_r := IN_QUOTED_FIELD\<rparr>)
          else if c = comma then Inr ((parse_save_field r)\<lparr>state_r := START_FIELD\<rparr>)
          else map_sum id (\<lambda>r'. r'\<lparr>state_r := IN_FIELD\<rparr>) (parse_add_char r c))"

fun parse_process_char :: "reader \<Rightarrow> csv_input \<Rightarrow> csv_error + reader" where
  "parse_process_char r i =
     (case state_r r of
        START_RECORD \<Rightarrow>
          (if i = EOL then Inr r
           else if is_eol_char i then Inr (r\<lparr>state_r := EAT_CRNL\<rparr>)
           else start_field r i)
      | START_FIELD \<Rightarrow> start_field r i
      | IN_FIELD \<Rightarrow>
          (case i of
             EOL \<Rightarrow> Inr ((parse_save_field r)\<lparr>state_r := START_RECORD\<rparr>)
           | Ch c \<Rightarrow>
               if c = nl \<or> c = cr then Inr ((parse_save_field r)\<lparr>state_r := EAT_CRNL\<rparr>)
               else if c = comma then Inr ((parse_save_field r)\<lparr>state_r := START_FIELD\<rparr>)
               else parse_add_char r c)
      | IN_QUOTED_FIELD \<Rightarrow>
          (case i of
             EOL \<Rightarrow> Inr r
           | Ch c \<Rightarrow>
               if c = dquote then Inr (r\<lparr>state_r := QUOTE_IN_QUOTED_FIELD\<rparr>)
               else parse_add_char r c)
      | QUOTE_IN_QUOTED_FIELD \<Rightarrow>
          (case i of
             EOL \<Rightarrow> Inr ((parse_save_field r)\<lparr>state_r := START_RECORD\<rparr>)
           | Ch c \<Rightarrow>
               if c = dquote
               then map_sum id (\<lambda>r'. r'\<lparr>state_r := IN_QUOTED_FIELD\<rparr>) (parse_add_char r c)
               else if c = comma then Inr ((parse_save_field r)\<lparr>state_r := START_FIELD\<rparr>)
               else if c = nl \<or> c = cr then Inr ((parse_save_field r)\<lparr>state_r := EAT_CRNL\<rparr>)
               else map_sum id (\<lambda>r'. r'\<lparr>state_r := IN_FIELD\<rparr>) (parse_add_char r c))
      | EAT_CRNL \<Rightarrow>
          (case i of
             EOL \<Rightarrow> Inr (r\<lparr>state_r := START_RECORD\<rparr>)
           | Ch c \<Rightarrow> if c = nl \<or> c = cr then Inr r else Inl NewlineInUnquotedField))"

text \<open>All characters of one line, then the end of the line.\<close>

fun process_chars :: "reader \<Rightarrow> string \<Rightarrow> csv_error + reader" where
  "process_chars r [] = parse_process_char r EOL"
| "process_chars r (c # cs) =
     (case parse_process_char r (Ch c) of
        Inl e \<Rightarrow> Inl e
      | Inr r' \<Rightarrow> process_chars r' cs)"

text \<open>
  The iteration \<open>for row in reader\<close>, as the list of what the iterator hands out.
  Each call of \<open>next(reader)\<close> starts from \<open>parse_reset\<close> and consumes lines until the
  state machine is back at the start of a record, then yields the saved fields. At the
  end of the input an open field (or an open quoted field) is saved and the record is
  yielded; with nothing open the iteration stops. An exception ends the iteration: it
  is the last element, \<open>Inl\<close>.
\<close>

fun reader_rows_from :: "reader \<Rightarrow> string list \<Rightarrow> (csv_error + string list) list" where
  "reader_rows_from r [] =
     (if field_r r \<noteq> [] \<or> state_r r = IN_QUOTED_FIELD
      then [Inr (fields_r (parse_save_field r))]
      else [])"
| "reader_rows_from r (l # ls) =
     (case process_chars r l of
        Inl e \<Rightarrow> [Inl e]
      | Inr r' \<Rightarrow>
          if state_r r' \<noteq> START_RECORD then reader_rows_from r' ls
          else Inr (fields_r r') # reader_rows_from parse_reset ls)"

definition csv_reader :: "string \<Rightarrow> (csv_error + string list) list" where
  "csv_reader text = reader_rows_from parse_reset (readlines text)"

text \<open>The characters that the reader takes as part of a field wherever they stand:
  all but the delimiter, the quote character and the two line ends.\<close>

definition plain_char :: "char \<Rightarrow> bool" where
  "plain_char c = (c \<noteq> comma \<and> c \<noteq> dquote \<and> c \<noteq> nl \<and> c \<noteq> cr)"

section \<open>The response parsers\<close>

subsection \<open>Code fences\<close>

text \<open>\<open>if text.startswith(fence) and text.endswith(fence): text = text.strip(...)\<close>, the
  fence being three backticks and the stripped characters the backtick, the line feed
  and the blank.\<close>

definition fence :: string where
  "fence = [backtick, backtick, backtick]"

definition strip_code_fences :: "string \<Rightarrow> string" where
  "strip_code_fences text =
     (if startswith text fence \<and> endswith text fence
      then strip_chars [backtick, nl, CHR '' ''] text
      else text)"

subsection \<open>The two-field parser of \<open>get_extended_description\<close>\<close>

text \<open>
  The score is an \<open>int\<close> or the empty string: \<^typ>\<open>int option\<close>, \<open>None\<close> for the empty
  string. The loop over the rows returns at the first row with two fields or more that
  is not a header; \<open>None\<close> means that the loop ended (or the reader raised, which
  \<open>except Exception: pass\<close> swallows) without a \<open>return\<close>.
\<close>

type_synonym enrichment = "int option \<times> string"

fun first_data_row :: "(csv_error + string list) list \<Rightarrow> enrichment option" where
  "first_data_row [] = None"
| "first_data_row (Inl e # rest) = None"
| "first_data_row (Inr row # rest) =
     (if row = [] then first_data_row rest
      else if startswith (strip (lower (row ! 0))) ''suggested'' then first_data_row rest
      else if 2 \<le> length row then
        (let score_raw = strip (row ! 0);
             desc = (if 2 < length row then join_comma (map strip (tl row))
                     else strip (row ! 1))
         in Some (py_int score_raw, desc))
      else first_data_row rest)"

text \<open>\<open>first, rest = text.split(",", 1)\<close>, for a text that contains a comma.\<close>

definition split_first_comma :: "string \<Rightarrow> string \<times> string" where
  "split_first_comma text =
     (takeWhile (\<lambda>c. c \<noteq> comma) text, tl (dropWhile (\<lambda>c. c \<noteq> comma) text))"

text \<open>The parser, from the fence stripping to the final fallback. The three scripts
  share it word for word (the asynchronous one on the raw body, the synchronous one on
  the stripped \<open>response\<close> field).\<close>

definition parse_reply :: "string \<Rightarrow> enrichment" where
  "parse_reply raw =
     (let text = strip_code_fences raw
      in case first_data_row (csv_reader text) of
           Some r \<Rightarrow> r
         | None \<Rightarrow>
             if comma \<in> set text
             then (let (first, rest) = split_first_comma text
                   in (py_int (strip first), strip rest))
             else (None, text))"

subsection \<open>The score parser of \<open>get_suggested_score\<close> (two-pass script)\<close>

text \<open>The loop over the rows: \<open>Some r\<close> is \<open>return r\<close>, \<open>None\<close> is the loop left without
  a return. A first field that is no integer moves on to the next row.\<close>

fun first_score_row :: "(csv_error + string list) list \<Rightarrow> int option option" where
  "first_score_row [] = None"
| "first_score_row (Inl e # rest) = None"
| "first_score_row (Inr row # rest) =
     (if row = [] then first_score_row rest
      else if startswith (strip (lower (row ! 0))) ''suggested'' then first_score_row rest
      else (case py_int (strip (row ! 0)) of
              Some score \<Rightarrow> if 1 \<le> score \<and> score \<le> 20 then Some (Some score) else Some None
            | None \<Rightarrow> first_score_row rest))"

text \<open>
  \<open>re.search(r"\\b(\\d{1,2})\\b", text)\<close>. In the raw string every backslash is doubled,
  so the pattern reads: a backslash, \<open>b\<close>, then the group (a backslash and one or two
  \<open>d\<close>), then a backslash and \<open>b\<close>. \<open>re_match_here\<close> is the match at the start of the
  text (the greedy two \<open>d\<close> first), \<open>re_search\<close> the leftmost match; both give group 1.
\<close>

definition re_match_here :: "string \<Rightarrow> string option" where
  "re_match_here s =
     (if startswith s ([backslash] @ ''b'' @ [backslash] @ ''dd'' @ [backslash] @ ''b'')
      then Some ([backslash] @ ''dd'')
      else if startswith s ([backslash] @ ''b'' @ [backslash] @ ''d'' @ [backslash] @ ''b'')
      then Some ([backslash] @ ''d'')
      else None)"

fun re_search :: "string \<Rightarrow> string option" where
  "re_search [] = re_match_here []"
| "re_search (c # cs) =
     (case re_match_here (c # cs) of
        Some g \<Rightarrow> Some g
      | None \<Rightarrow> re_search cs)"

definition score_fallback :: "string \<Rightarrow> int option" where
  "score_fallback text =
     (case re_search text of
        None \<Rightarrow> None
      | Some g \<Rightarrow>
          (case py_int g of
             None \<Rightarrow> None
           | Some score \<Rightarrow> if 1 \<le> score \<and> score \<le> 20 then Some score else None))"

definition parse_score :: "string \<Rightarrow> int option" where
  "parse_score raw =
     (let text = strip_code_fences raw
      in case first_score_row (csv_reader text) of
           Some r \<Rightarrow> r
         | None \<Rightarrow> score_fallback text)"

section \<open>The HTTP exchange with the model server\<close>

text \<open>
  The decoded JSON value of a body, and the response object with what the scripts read
  from it: \<open>status\<close> (\<open>status_code\<close>), \<open>reason\<close>, \<open>url\<close>, the body text (\<open>text\<close>) and
  what \<open>json()\<close> gives: the decoded value, or \<open>Inl\<close> the message of the exception it
  raises.
\<close>

datatype json =
  JNull | JBool bool | JInt int | JFloat string | JString string
  | JArray "json list" | JObject "(string \<times> json) list"

record http_response =
  status_code :: int
  reason :: string
  url :: string
  body_text :: string
  json_value :: "string + json"

text \<open>One \<open>post\<close> either raises (a timeout, a connection error, a failure while the body
  is read: any \<open>Exception\<close>, kept as its message \<open>str(e)\<close>) or gives a response.\<close>

datatype post_outcome = Raised string | Response http_response

text \<open>\<open>str(n)\<close> for an integer.\<close>

fun str_nat :: "nat \<Rightarrow> string" where
  "str_nat n =
     (if n < 10 then [''0123456789'' ! n]
      else str_nat (n div 10) @ [''0123456789'' ! (n mod 10)])"

definition str_int :: "int \<Rightarrow> string" where
  "str_int i = (if i < 0 then CHR ''-'' # str_nat (nat (- i)) else str_nat (nat i))"

subsection \<open>The asynchronous request executor\<close>

text \<open>
  One pass through the body of the \<open>try\<close>: \<open>Inl\<close> is the message of the exception that
  reaches \<open>except Exception as e\<close>, \<open>Inr\<close> the value of a \<open>return\<close>. A status other than
  200 raises \<open>RuntimeError\<close>; otherwise the body text goes to the parser as it is.
\<close>

definition attempt_once :: "post_outcome \<Rightarrow> string + enrichment" where
  "attempt_once out =
     (case out of
        Raised e \<Rightarrow> Inl e
      | Response resp \<Rightarrow>
          if status_code resp \<noteq> 200
          then Inl (''Ollama error '' @ str_int (status_code resp) @ '': '' @ body_text resp)
          else Inr (parse_reply (body_text resp)))"

text \<open>What the coroutine returns: a pair, or \<open>None\<close> when the \<open>for\<close> loop is left without
  a \<open>return\<close>.\<close>

datatype exec_result = Returned enrichment | ReturnedNone

text \<open>The result together with what the executor did: the number of requests posted
  and the sleeps in seconds, in order.\<close>

record execution =
  result :: exec_result
  posts :: nat
  sleeps :: "nat list"

text \<open>\<open>for attempt in range(3)\<close>, the environment \<open>env\<close> giving the outcome of the post of
  each attempt.\<close>

fun retry_loop :: "(nat \<Rightarrow> post_outcome) \<Rightarrow> nat list \<Rightarrow> execution" where
  "retry_loop env [] = \<lparr>result = ReturnedNone, posts = 0, sleeps = []\<rparr>"
| "retry_loop env (attempt # later_attempts) =
     (case attempt_once (env attempt) of
        Inr r \<Rightarrow> \<lparr>result = Returned r, posts = 1, sleeps = []\<rparr>
      | Inl e \<Rightarrow>
          if attempt = 2
          then \<lparr>result = Returned (None, ''ERROR after retries: '' @ e), posts = 1, sleeps = []\<rparr>
          else (let later = retry_loop env later_attempts
                in later\<lparr>posts := posts later + 1, sleeps := (1 + attempt) # sleeps later\<rparr>))"

definition get_extended_description :: "(nat \<Rightarrow> post_outcome) \<Rightarrow> execution" where
  "get_extended_description env = retry_loop env [0, 1, 2]"

subsection \<open>The synchronous scripts\<close>

definition squote :: char where "squote = CHR 0x27"

definition py_type_name :: "json \<Rightarrow> string" where
  "py_type_name j =
     (case j of
        JNull \<Rightarrow> ''NoneType'' | JBool b \<Rightarrow> ''bool'' | JInt i \<Rightarrow> ''int''
      | JFloat f \<Rightarrow> ''float'' | JString s \<Rightarrow> ''str'' | JArray xs \<Rightarrow> ''list''
      | JObject kv \<Rightarrow> ''dict'')"

definition no_attribute :: "json \<Rightarrow> string \<Rightarrow> string" where
  "no_attribute j a =
     [squote] @ py_type_name j @ [squote] @ '' object has no attribute '' @ [squote] @ a @ [squote]"

text \<open>\<open>raise_for_status\<close>: the message of the \<open>HTTPError\<close>, if one is raised.\<close>

definition raise_for_status :: "http_response \<Rightarrow> string option" where
  "raise_for_status resp =
     (let s = status_code resp
      in if 400 \<le> s \<and> s < 500
         then Some (str_int s @ '' Client Error: '' @ reason resp @ '' for url: '' @ url resp)
         else if 500 \<le> s \<and> s < 600
         then Some (str_int s @ '' Server Error: '' @ reason resp @ '' for url: '' @ url resp)
         else None)"

text \<open>\<open>data.get("response", "").strip()\<close> on the decoded body.\<close>

definition get_response_stripped :: "json \<Rightarrow> string + string" where
  "get_response_stripped data =
     (case data of
        JObject kv \<Rightarrow>
          (case map_of kv ''response'' of
             None \<Rightarrow> Inr (strip [])
           | Some v \<Rightarrow>
               (case v of
                  JString s \<Rightarrow> Inr (strip s)
                | _ \<Rightarrow> Inl (no_attribute v ''strip'')))
      | _ \<Rightarrow> Inl (no_attribute data ''get''))"

text \<open>\<open>r = requests.post(...); r.raise_for_status(); r.json().get("response", "").strip()\<close>:
  the reply text, or \<open>Inl\<close> the message of the exception raised on the way.\<close>

definition post_for_reply :: "post_outcome \<Rightarrow> string + string" where
  "post_for_reply out =
     (case out of
        Raised e \<Rightarrow> Inl e
      | Response resp \<Rightarrow>
          (case raise_for_status resp of
             Some e \<Rightarrow> Inl e
           | None \<Rightarrow>
               (case json_value resp of
                  Inl e \<Rightarrow> Inl e
                | Inr data \<Rightarrow> get_response_stripped data)))"

text \<open>\<open>get_extended_description\<close> of the synchronous script and \<open>get_suggested_score\<close> of
  the two-pass script: an exception propagates to the caller (\<open>Inl\<close>).\<close>

definition get_extended_description_sync :: "post_outcome \<Rightarrow> string + enrichment" where
  "get_extended_description_sync out = map_sum id parse_reply (post_for_reply out)"

definition get_suggested_score :: "post_outcome \<Rightarrow> string + int option" where
  "get_suggested_score out = map_sum id parse_score (post_for_reply out)"

subsection \<open>The health check\<close>

text \<open>\<open>test_model\<close>: the probe succeeds when the reply text is not empty and nothing was
  raised on the way. The synchronous scripts return the flag; the asynchronous script
  leaves through \<open>sys.exit(1)\<close> instead of returning \<open>False\<close>.\<close>

definition test_model :: "post_outcome \<Rightarrow> bool" where
  "test_model probe =
     (case post_for_reply probe of
        Inl e \<Rightarrow> False
      | Inr response_text \<Rightarrow> response_text \<noteq> [])"

section \<open>The tables\<close>

text \<open>
  A data frame: its column names in order and its rows, a row giving the cell of each
  column. A cell is a text or an integer; the absent score is the empty text.
\<close>

datatype cell = Text string | Number int

type_synonym row = "string \<rightharpoonup> cell"

record table =
  columns :: "string list"
  rows :: "row list"

definition required_cols :: "string set" where
  "required_cols =
     {''privilege_type'', ''privilege_name'', ''privilege_description'', ''privilege_score''}"

definition desired_cols :: "string list" where
  "desired_cols =
     [''privilege_type'', ''privilege_name'', ''privilege_description'', ''privilege_score'',
      ''suggested_privilege_score'', ''extended_description'']"

datatype run_error =
  MissingRequired "string set"
  | SystemExit int
  | LengthMismatch
  | MissingExpected "string list"

text \<open>\<open>df[name] = values\<close>: the values must be as many as the rows; an existing column
  is overwritten in place, a new one is appended.\<close>

definition set_column :: "string \<Rightarrow> cell list \<Rightarrow> table \<Rightarrow> run_error + table" where
  "set_column name vals df =
     (if length vals \<noteq> length (rows df) then Inl LengthMismatch
      else Inr \<lparr>columns = (if name \<in> set (columns df) then columns df
                             else columns df @ [name]),
                rows = map (\<lambda>(r, v). r(name \<mapsto> v)) (zip (rows df) vals)\<rparr>)"

text \<open>\<open>df[cols]\<close> for a list of columns that are all there.\<close>

definition select_columns :: "string list \<Rightarrow> table \<Rightarrow> table" where
  "select_columns cols df = \<lparr>columns = cols, rows = map (\<lambda>r. r |` set cols) (rows df)\<rparr>"

text \<open>An input row with the two new cells, cut down to the six columns.\<close>

definition enriched_row :: "row \<Rightarrow> cell \<Rightarrow> cell \<Rightarrow> row" where
  "enriched_row r s d =
     (r(''suggested_privilege_score'' \<mapsto> s, ''extended_description'' \<mapsto> d)) |` set desired_cols"

definition score_cell :: "int option \<Rightarrow> cell" where
  "score_cell s = (case s of None \<Rightarrow> Text [] | Some n \<Rightarrow> Number n)"

text \<open>The two new columns are set, the six columns are checked and selected, and the
  table is written: \<open>Inr\<close> is the table handed to \<open>to_csv\<close>.\<close>

definition write_enriched :: "cell list \<Rightarrow> cell list \<Rightarrow> table \<Rightarrow> run_error + table" where
  "write_enriched suggested_scores extended_descriptions df =
     (case set_column ''suggested_privilege_score'' suggested_scores df of
        Inl e \<Rightarrow> Inl e
      | Inr df1 \<Rightarrow>
          (case set_column ''extended_description'' extended_descriptions df1 of
             Inl e \<Rightarrow> Inl e
           | Inr df2 \<Rightarrow>
               (let missing = filter (\<lambda>c. c \<notin> set (columns df2)) desired_cols
                in if missing \<noteq> [] then Inl (MissingExpected missing)
                   else Inr (select_columns desired_cols df2))))"

text \<open>A run: the health-check probes and the enrichment requests that were posted, and
  how the run ended.\<close>

record run =
  health_probes :: nat
  enrichment_posts :: nat
  outcome :: "run_error + table"

section \<open>The asynchronous batch\<close>

text \<open>
  \<open>tqdm_asyncio.gather\<close> pairs every awaitable with its index, collects the pairs as
  the awaitables complete and returns the values sorted by index. \<open>order\<close> is the order
  of completion, a list of task indices.
\<close>

definition as_completed :: "nat list \<Rightarrow> 'a list \<Rightarrow> (nat \<times> 'a) list" where
  "as_completed order vals = map (\<lambda>i. (i, vals ! i)) order"

definition gather :: "nat list \<Rightarrow> 'a list \<Rightarrow> 'a list" where
  "gather order vals = map snd (sort_key fst (as_completed order vals))"

text \<open>The loop that splits the results into the two columns.\<close>

definition split_result :: "exec_result \<Rightarrow> cell \<times> cell" where
  "split_result r =
     (case r of
        Returned (score, desc) \<Rightarrow> (score_cell score, Text desc)
      | ReturnedNone \<Rightarrow> (Text [], Text ''None''))"

text \<open>
  \<open>process_csv_async\<close> on the table read from the input file. \<open>probe\<close> is the outcome
  of the post of the health check, \<open>env i\<close> the outcomes of the posts for row \<open>i\<close>,
  \<open>order\<close> the order in which the tasks complete.
\<close>

definition process_csv_async ::
  "table \<Rightarrow> post_outcome \<Rightarrow> (nat \<Rightarrow> nat \<Rightarrow> post_outcome) \<Rightarrow> nat list \<Rightarrow> run" where
  "process_csv_async df probe env order =
     (if \<not> required_cols \<subseteq> set (columns df)
      then \<lparr>health_probes = 0, enrichment_posts = 0,
            outcome = Inl (MissingRequired (required_cols - set (columns df)))\<rparr>
      else if \<not> test_model probe
      then \<lparr>health_probes = 1, enrichment_posts = 0, outcome = Inl (SystemExit 1)\<rparr>
      else (let tasks = map (\<lambda>i. get_extended_description (env i)) [0..<length (rows df)];
                results = gather order (map result tasks);
                suggested_scores = map (fst \<circ> split_result) results;
                extended_descriptions = map (snd \<circ> split_result) results
            in \<lparr>health_probes = 1, enrichment_posts = sum_list (map posts tasks),
                outcome = write_enriched suggested_scores extended_descriptions df\<rparr>))"

section \<open>The synchronous batch\<close>

text \<open>
  \<open>process_csv\<close> of the synchronous script: the health check comes first, then the
  table is read and validated, then the rows are processed one after the other, one
  post for each (\<open>env i\<close> its outcome); an exception becomes the description of the row.
\<close>

definition enrich_row_sync :: "post_outcome \<Rightarrow> enrichment" where
  "enrich_row_sync out =
     (case get_extended_description_sync out of
        Inl e \<Rightarrow> (None, ''ERROR: '' @ e)
      | Inr r \<Rightarrow> r)"

definition process_csv ::
  "table \<Rightarrow> post_outcome \<Rightarrow> (nat \<Rightarrow> post_outcome) \<Rightarrow> run" where
  "process_csv df probe env =
     (if \<not> test_model probe
      then \<lparr>health_probes = 1, enrichment_posts = 0, outcome = Inl (SystemExit 1)\<rparr>
      else if \<not> required_cols \<subseteq> set (columns df)
      then \<lparr>health_probes = 1, enrichment_posts = 0,
            outcome = Inl (MissingRequired (required_cols - set (columns df)))\<rparr>
      else (let results = map (\<lambda>i. enrich_row_sync (env i)) [0..<length (rows df)];
                suggested_scores = map (score_cell \<circ> fst) results;
                extended_descriptions = map (Text \<circ> snd) results
            in \<lparr>health_probes = 1, enrichment_posts = length (rows df),
                outcome = write_enriched suggested_scores extended_descriptions df\<rparr>))"

section \<open>The concurrency gate\<close>

text \<open>
  Every task of the batch is the coroutine \<open>get_extended_description\<close>, whose whole
  retry loop runs inside \<open>async with semaphore\<close>. A task is pending until it has the
  semaphore, in flight while it holds it, and completed with its result once it has
  left the block. The semaphore is its counter \<open>sem_value\<close>: \<open>acquire\<close> needs a positive
  counter and lowers it, \<open>release\<close> raises it. The event loop runs one task at a time,
  so a step of the batch is one task entering or leaving the block.
\<close>

datatype phase = Pending | InFlight | Completed exec_result

record batch =
  sem_value :: nat
  tasks :: "phase list"

definition MAX_CONCURRENT_REQUESTS :: nat where
  "MAX_CONCURRENT_REQUESTS = 2"

definition start_batch :: "nat \<Rightarrow> nat \<Rightarrow> batch" where
  "start_batch cap m = \<lparr>sem_value = cap, tasks = replicate m Pending\<rparr>"

definition enter :: "nat \<Rightarrow> batch \<Rightarrow> batch option" where
  "enter i b =
     (if i < length (tasks b) \<and> tasks b ! i = Pending \<and> 0 < sem_value b
      then Some \<lparr>sem_value = sem_value b - 1, tasks = (tasks b)[i := InFlight]\<rparr>
      else None)"

definition leave :: "(nat \<Rightarrow> nat \<Rightarrow> post_outcome) \<Rightarrow> nat \<Rightarrow> batch \<Rightarrow> batch option" where
  "leave env i b =
     (if i < length (tasks b) \<and> tasks b ! i = InFlight
      then Some \<lparr>sem_value = sem_value b + 1,
                 tasks = (tasks b)[i := Completed (result (get_extended_description (env i)))]\<rparr>
      else None)"

inductive step :: "(nat \<Rightarrow> nat \<Rightarrow> post_outcome) \<Rightarrow> batch \<Rightarrow> batch \<Rightarrow> bool"
  for env :: "nat \<Rightarrow> nat \<Rightarrow> post_outcome" where
  step_enter: "enter i b = Some b' \<Longrightarrow> step env b b'"
| step_leave: "leave env i b = Some b' \<Longrightarrow> step env b b'"

text \<open>\<open>run_of env cap m k b\<close>: the batch of \<open>m\<close> tasks under the cap \<open>cap\<close> can be in \<open>b\<close>
  after \<open>k\<close> steps.\<close>

inductive run_of :: "(nat \<Rightarrow> nat \<Rightarrow> post_outcome) \<Rightarrow> nat \<Rightarrow> nat \<Rightarrow> nat \<Rightarrow> batch \<Rightarrow> bool"
  for env :: "nat \<Rightarrow> nat \<Rightarrow> post_outcome" and cap :: nat and m :: nat where
  run_start: "run_of env cap m 0 (start_batch cap m)"
| run_step: "run_of env cap m k b \<Longrightarrow> step env b b' \<Longrightarrow> run_of env cap m (Suc k) b'"

definition in_flight :: "batch \<Rightarrow> nat" where
  "in_flight b = length (filter (\<lambda>p. p = InFlight) (tasks b))"

definition stuck :: "(nat \<Rightarrow> nat \<Rightarrow> post_outcome) \<Rightarrow> batch \<Rightarrow> bool" where
  "stuck env b = (\<forall>i < length (tasks b). enter i b = None \<and> leave env i b = None)"

text \<open>The number of pending tasks, and the tasks that are pending, in flight or completed
  with the result of their own executor.\<close>

definition pending :: "batch \<Rightarrow> nat" where
  "pending b = length (filter (\<lambda>p. p = Pending) (tasks b))"

definition settled :: "(nat \<Rightarrow> nat \<Rightarrow> post_outcome) \<Rightarrow> batch \<Rightarrow> bool" where
  "settled env b =
     (\<forall>i<length (tasks b). tasks b ! i = Pending \<or> tasks b ! i = InFlight
        \<or> tasks b ! i = Completed (result (get_extended_description (env i))))"

text \<open>A schedule is a list of events, each one task entering or leaving the block;
  \<open>play\<close> runs a schedule, \<open>None\<close> when an event is not enabled.\<close>

datatype event = Enter nat | Leave nat

fun play :: "(nat \<Rightarrow> nat \<Rightarrow> post_outcome) \<Rightarrow> event list \<Rightarrow> batch \<Rightarrow> batch option" where
  "play env [] b = Some b"
| "play env (Enter i # evs) b = (case enter i b of None \<Rightarrow> None | Some b' \<Rightarrow> play env evs b')"
| "play env (Leave i # evs) b = (case leave env i b of None \<Rightarrow> None | Some b' \<Rightarrow> play env evs b')"

section \<open>Example inputs\<close>

text \<open>A status-200 response of the model server whose body is the JSON object with the
  single member \<open>response\<close>, the reply \<open>7,ok\<close>.\<close>

definition wrapped_reply :: http_response where
  "wrapped_reply =
     \<lparr>status_code = 200, reason = ''OK'',
      url = ''http://ollamaserver_nuc1:11434/api/generate'',
      body_text = ''{'' @ [dquote] @ ''response'' @ [dquote] @ '':'' @ [dquote] @ ''7,ok''
                  @ [dquote] @ ''}'',
      json_value = Inr (JObject [(''response'', JString ''7,ok'')])\<rparr>"

text \<open>Responses and environments for the request executor: a parsable reply, a server
  error and a status-200 response with an empty body.\<close>

definition reply_7_ok :: http_response where
  "reply_7_ok =
     \<lparr>status_code = 200, reason = ''OK'',
      url = ''http://ollamaserver_nuc1:11434/api/generate'',
      body_text = ''7,ok'', json_value = Inl ''Expecting value''\<rparr>"

definition reply_500 :: http_response where
  "reply_500 =
     \<lparr>status_code = 500, reason = ''Internal Server Error'',
      url = ''http://ollamaserver_nuc1:11434/api/generate'',
      body_text = ''overloaded'', json_value = Inl ''Expecting value''\<rparr>"

definition reply_empty :: http_response where
  "reply_empty =
     \<lparr>status_code = 200, reason = ''OK'',
      url = ''http://ollamaserver_nuc1:11434/api/generate'',
      body_text = [], json_value = Inl ''Expecting value''\<rparr>"

definition env_third_try :: "nat \<Rightarrow> post_outcome" where
  "env_third_try attempt =
     (if attempt = 0 then Raised ''timeout''
      else if attempt = 1 then Response reply_500
      else Response reply_7_ok)"

definition env_all_fail :: "nat \<Rightarrow> post_outcome" where
  "env_all_fail attempt =
     (if attempt = 2 then Raised ''connection refused'' else Response reply_500)"

definition env_500_then_empty :: "nat \<Rightarrow> post_outcome" where
  "env_500_then_empty attempt =
     (if attempt = 0 then Response reply_500 else Response reply_empty)"

text \<open>A probe response that passes the health check, a table that lacks the column
  \<open>privilege_score\<close>, a table of two rows with all four columns, and the posts of its
  two rows: the requests of row 0 all fail, that of row 1 succeeds at the third attempt.\<close>

definition probe_reply :: http_response where
  "probe_reply =
     \<lparr>status_code = 200, reason = ''OK'',
      url = ''http://ollamaserver_nuc1:11434/api/generate'',
      body_text = ''{'' @ [dquote] @ ''response'' @ [dquote] @ '':'' @ [dquote]
                  @ ''I am Code Llama'' @ [dquote] @ ''}'',
      json_value = Inr (JObject [(''response'', JString ''I am Code Llama'')])\<rparr>"

definition table_without_score :: table where
  "table_without_score =
     \<lparr>columns = [''privilege_type'', ''privilege_name'', ''privilege_description''],
      rows = [[''privilege_type'' \<mapsto> Text ''scp'', ''privilege_name'' \<mapsto> Text ''User.Read'',
               ''privilege_description'' \<mapsto> Text ''Sign in'']]\<rparr>"

definition two_rows :: table where
  "two_rows =
     \<lparr>columns = [''privilege_name'', ''privilege_type'', ''privilege_score'',
                 ''privilege_description''],
      rows = [[''privilege_name'' \<mapsto> Text ''User.Read'', ''privilege_type'' \<mapsto> Text ''scp'',
               ''privilege_score'' \<mapsto> Number 3, ''privilege_description'' \<mapsto> Text ''Sign in''],
              [''privilege_name'' \<mapsto> Text ''Mail.Send'', ''privilege_type'' \<mapsto> Text ''roles'',
               ''privilege_score'' \<mapsto> Number 9, ''privilege_description'' \<mapsto> Text ''Send mail'']]\<rparr>"

definition env_rows :: "nat \<Rightarrow> nat \<Rightarrow> post_outcome" where
  "env_rows i = (if i = 0 then env_all_fail else env_third_try)"

text \<open>A status-200 response whose reply has the score 25, the reply of a header line
  followed by the score 25, and the reply of a header line followed by a quoted
  two-field record.\<close>

definition reply_25 :: http_response where
  "reply_25 =
     \<lparr>status_code = 200, reason = ''OK'',
      url = ''http://ollamaserver_nuc1:11434/api/generate'',
      body_text = ''25,Full access'', json_value = Inl ''Expecting value''\<rparr>"

definition header_then_25 :: string where
  "header_then_25 = ''suggested_privilege_score'' @ [nl] @ ''25''"

definition reply_with_header :: string where
  "reply_with_header =
     ''suggested_privilege_score,extended_description'' @ [nl] @ ''7,'' @ [dquote]
     @ ''Allows read access, broadly'' @ [dquote]"

text \<open>A schedule of five tasks under the cap 2 and the batch it ends in.\<close>

definition five_schedule :: "event list" where
  "five_schedule =
     [Enter 0, Enter 1, Leave 1, Enter 2, Leave 0, Enter 3, Leave 2, Leave 3, Enter 4, Leave 4]"

definition five_done :: batch where
  "five_done =
     \<lparr>sem_value = 2,
      tasks = [Completed (Returned (None, ''ERROR after retries: connection refused'')),
               Completed (Returned (Some 7, ''ok'')), Completed (Returned (Some 7, ''ok'')),
               Completed (Returned (Some 7, ''ok'')), Completed (Returned (Some 7, ''ok''))]\<rparr>"

section \<open>Evaluation rules\<close>

declare parse_process_char.simps [simp del]

lemmas char_defs =
  nl_def cr_def dquote_def comma_def backtick_def backslash_def underscore_def squote_def

lemmas str_defs =
  py_isspace_def strip_with_def strip_def strip_chars_def lower_def lower_char_def
  upper_letters_def lower_letters_def startswith_def endswith_def

lemmas int_defs =
  py_int_def int_isspace_def is_digit_def digit_val_def digits_value_def int_max_str_digits_def

lemmas csv_defs =
  parse_process_char.simps csv_reader_def readlines_def parse_reset_def start_field_def parse_save_field_def
  parse_add_char_def field_limit_def is_eol_char_def

lemmas parse_defs =
  parse_reply_def strip_code_fences_def fence_def split_first_comma_def

lemmas http_defs =
  attempt_once_def get_extended_description_def get_extended_description_sync_def
  post_for_reply_def raise_for_status_def get_response_stripped_def str_int_def

section \<open>The header-only reply\<close>

text \<open>
  C10. For the reply that is only the header line
  \<open>suggested_privilege_score,extended_description\<close>, the reader yields the one row of the
  two header fields, the loop over the rows skips it and returns nothing, and the
  fallback splits the text at its first comma: the score is absent and the description
  is \<open>extended_description\<close>.
\<close>

theorem header_only_reply:
  "csv_reader ''suggested_privilege_score,extended_description''
     = [Inr [''suggested_privilege_score'', ''extended_description'']]
   \<and> first_data_row (csv_reader ''suggested_privilege_score,extended_description'') = None
   \<and> parse_reply ''suggested_privilege_score,extended_description''
     = (None, ''extended_description'')"
  by (simp add: parse_defs csv_defs str_defs char_defs int_defs)

section \<open>The text handed to the parser\<close>

text \<open>
  C6. On the response \<open>wrapped_reply\<close> the asynchronous executor parses the whole body,
  JSON syntax included: the first field is no integer and the description is the tail
  of the body after the comma. The synchronous script, on the same response, parses the
  value of the \<open>response\<close> member and finds score 7 and description \<open>ok\<close>.
\<close>

theorem async_parses_whole_body:
  "get_extended_description (\<lambda>attempt. Response wrapped_reply)
     = \<lparr>result = Returned (None, ''ok'' @ [dquote] @ ''}''), posts = 1, sleeps = []\<rparr>
   \<and> get_extended_description_sync (Response wrapped_reply) = Inr (Some 7, ''ok'')
   \<and> parse_reply ''7,ok'' = (Some 7, ''ok'')"
  by (simp add: wrapped_reply_def http_defs parse_defs csv_defs char_defs str_defs int_defs)

section \<open>The numeric fallback of the score parser\<close>

lemma re_match_here_group:
  "re_match_here s = Some g \<Longrightarrow> g = [backslash] @ ''d'' \<or> g = [backslash] @ ''dd''"
  by (auto simp: re_match_here_def split: if_splits)

lemma re_search_group:
  "re_search s = Some g \<Longrightarrow> g = [backslash] @ ''d'' \<or> g = [backslash] @ ''dd''"
  by (induction s) (auto dest: re_match_here_group split: option.splits)

lemma py_int_group:
  "py_int ([backslash] @ ''d'') = None" "py_int ([backslash] @ ''dd'') = None"
  by (simp_all add: int_defs str_defs char_defs)

lemma score_fallback_None: "score_fallback text = None"
proof (cases "re_search text")
  case None
  then show ?thesis by (simp add: score_fallback_def)
next
  case (Some g)
  from re_search_group[OF Some] have "py_int g = None"
    using py_int_group by auto
  with Some show ?thesis by (simp add: score_fallback_def)
qed

text \<open>
  C7. The reply \<open>Score: 7\<close> has no row whose first field is an integer, so the score
  parser reaches its fallback; the first integer token of the text is 7, within 1..20,
  yet the parser returns no score. The fallback returns no score on any text: group 1
  of its pattern always starts with a backslash, which \<open>int\<close> refuses.
\<close>

theorem score_fallback_finds_nothing:
  "first_score_row (csv_reader ''Score: 7'') = None
   \<and> parse_score ''Score: 7'' = None
   \<and> (\<forall>text. score_fallback text = None)"
  by (simp add: parse_score_def score_fallback_None strip_code_fences_def fence_def
        csv_defs char_defs str_defs int_defs)

section \<open>The retry loop of the request executor\<close>

lemma retry_unfold:
  "get_extended_description env =
     (case attempt_once (env 0) of
        Inr r \<Rightarrow> \<lparr>result = Returned r, posts = 1, sleeps = []\<rparr>
      | Inl e0 \<Rightarrow>
        (case attempt_once (env 1) of
           Inr r \<Rightarrow> \<lparr>result = Returned r, posts = 2, sleeps = [1]\<rparr>
         | Inl e1 \<Rightarrow>
           (case attempt_once (env 2) of
              Inr r \<Rightarrow> \<lparr>result = Returned r, posts = 3, sleeps = [1, 2]\<rparr>
            | Inl e2 \<Rightarrow>
                \<lparr>result = Returned (None, ''ERROR after retries: '' @ e2),
                 posts = 3, sleeps = [1, 2]\<rparr>)))"
  by (simp add: get_extended_description_def split: sum.splits)

lemma attempt_once_ok:
  "status_code resp = 200 \<Longrightarrow>
     attempt_once (Response resp) = Inr (parse_reply (body_text resp))"
  by (simp add: attempt_once_def)

lemma attempt_once_bad_status:
  "status_code resp \<noteq> 200 \<Longrightarrow>
     attempt_once (Response resp)
       = Inl (''Ollama error '' @ str_int (status_code resp) @ '': '' @ body_text resp)"
  by (simp add: attempt_once_def)

lemma parse_reply_empty: "parse_reply [] = (None, [])"
  by (simp add: parse_defs csv_defs char_defs str_defs)

lemma str_500: "str_int 500 = ''500''"
  by (simp add: str_int_def)

text \<open>
  C2. The executor posts at most three times and always returns a pair, whatever the
  posts do (every exception raised inside the \<open>try\<close> is the \<open>Inl\<close> of \<open>attempt_once\<close>, and
  the handler turns it into a retry or into the final pair). A status-200 response at
  the first, second or third attempt, after failures of the attempts before it, gives
  the parse of that response, after sleeps of 1 and then 2 seconds between the attempts.
  Three failures give the absent score and \<open>ERROR after retries:\<close> followed by the
  message of the third failure, again after sleeps of 1 and 2 seconds.
\<close>

theorem executor_always_resolves:
  "posts (get_extended_description env) \<le> 3
   \<and> (\<exists>score desc. result (get_extended_description env) = Returned (score, desc))
   \<and> (\<forall>resp. env 0 = Response resp \<and> status_code resp = 200 \<longrightarrow>
         get_extended_description env
           = \<lparr>result = Returned (parse_reply (body_text resp)), posts = 1, sleeps = []\<rparr>)
   \<and> (\<forall>e0 resp. attempt_once (env 0) = Inl e0
           \<and> env 1 = Response resp \<and> status_code resp = 200 \<longrightarrow>
         get_extended_description env
           = \<lparr>result = Returned (parse_reply (body_text resp)), posts = 2, sleeps = [1]\<rparr>)
   \<and> (\<forall>e0 e1 resp. attempt_once (env 0) = Inl e0 \<and> attempt_once (env 1) = Inl e1
           \<and> env 2 = Response resp \<and> status_code resp = 200 \<longrightarrow>
         get_extended_description env
           = \<lparr>result = Returned (parse_reply (body_text resp)), posts = 3, sleeps = [1, 2]\<rparr>)
   \<and> (\<forall>e0 e1 e2. attempt_once (env 0) = Inl e0 \<and> attempt_once (env 1) = Inl e1
           \<and> attempt_once (env 2) = Inl e2 \<longrightarrow>
         get_extended_description env
           = \<lparr>result = Returned (None, ''ERROR after retries: '' @ e2),
              posts = 3, sleeps = [1, 2]\<rparr>)"
proof -
  have 1: "posts (get_extended_description env) \<le> 3"
    by (simp add: retry_unfold split: sum.splits)
  have 2: "\<exists>score desc. result (get_extended_description env) = Returned (score, desc)"
    by (simp add: retry_unfold split: sum.splits)
  have 3: "\<forall>resp. env 0 = Response resp \<and> status_code resp = 200 \<longrightarrow>
         get_extended_description env
           = \<lparr>result = Returned (parse_reply (body_text resp)), posts = 1, sleeps = []\<rparr>"
    by (simp add: retry_unfold attempt_once_ok)
  have 4: "\<forall>e0 resp. attempt_once (env 0) = Inl e0
           \<and> env 1 = Response resp \<and> status_code resp = 200 \<longrightarrow>
         get_extended_description env
           = \<lparr>result = Returned (parse_reply (body_text resp)), posts = 2, sleeps = [1]\<rparr>"
    by (simp add: retry_unfold attempt_once_ok)
  have 5: "\<forall>e0 e1 resp. attempt_once (env 0) = Inl e0 \<and> attempt_once (env 1) = Inl e1
           \<and> env 2 = Response resp \<and> status_code resp = 200 \<longrightarrow>
         get_extended_description env
           = \<lparr>result = Returned (parse_reply (body_text resp)), posts = 3, sleeps = [1, 2]\<rparr>"
    by (simp add: retry_unfold attempt_once_ok)
  have 6: "\<forall>e0 e1 e2. attempt_once (env 0) = Inl e0 \<and> attempt_once (env 1) = Inl e1
           \<and> attempt_once (env 2) = Inl e2 \<longrightarrow>
         get_extended_description env
           = \<lparr>result = Returned (None, ''ERROR after retries: '' @ e2),
              posts = 3, sleeps = [1, 2]\<rparr>"
    by (simp add: retry_unfold)
  from 1 2 3 4 5 6 show ?thesis by blast
qed

theorem executor_always_resolves_witness:
  "attempt_once (env_third_try 0) = Inl ''timeout''
   \<and> attempt_once (env_third_try 1) = Inl ''Ollama error 500: overloaded''
   \<and> env_third_try 2 = Response reply_7_ok \<and> status_code reply_7_ok = 200
   \<and> get_extended_description env_third_try
       = \<lparr>result = Returned (Some 7, ''ok''), posts = 3, sleeps = [1, 2]\<rparr>
   \<and> attempt_once (env_all_fail 0) = Inl ''Ollama error 500: overloaded''
   \<and> attempt_once (env_all_fail 1) = Inl ''Ollama error 500: overloaded''
   \<and> attempt_once (env_all_fail 2) = Inl ''connection refused''
   \<and> get_extended_description env_all_fail
       = \<lparr>result = Returned (None, ''ERROR after retries: connection refused''),
          posts = 3, sleeps = [1, 2]\<rparr>"
proof -
  have a: "attempt_once (env_third_try 0) = Inl ''timeout''"
    "attempt_once (env_third_try 1) = Inl ''Ollama error 500: overloaded''"
    "env_third_try 2 = Response reply_7_ok" "status_code reply_7_ok = 200"
    by (simp_all add: env_third_try_def reply_500_def reply_7_ok_def attempt_once_def str_500)
  have b: "attempt_once (env_all_fail 0) = Inl ''Ollama error 500: overloaded''"
    "attempt_once (env_all_fail 1) = Inl ''Ollama error 500: overloaded''"
    "attempt_once (env_all_fail 2) = Inl ''connection refused''"
    by (simp_all add: env_all_fail_def reply_500_def attempt_once_def str_500)
  have p: "parse_reply (body_text reply_7_ok) = (Some 7, ''ok'')"
    by (simp add: reply_7_ok_def parse_defs csv_defs char_defs str_defs int_defs)
  from executor_always_resolves[of env_third_try] a p
  have c: "get_extended_description env_third_try
       = \<lparr>result = Returned (Some 7, ''ok''), posts = 3, sleeps = [1, 2]\<rparr>"
    by simp
  from executor_always_resolves[of env_all_fail] b
  have d: "get_extended_description env_all_fail
       = \<lparr>result = Returned (None, ''ERROR after retries: connection refused''),
          posts = 3, sleeps = [1, 2]\<rparr>"
    by simp
  from a b c d show ?thesis by simp
qed

section \<open>What counts as a failed attempt\<close>

text \<open>
  C5, as the claim states it, fails: a status-200 response with an empty body is not
  retried. The first attempt hands the empty text to the parser and returns its result,
  the absent score and the empty description, after one post and no sleep.
\<close>

theorem empty_body_returned_at_once:
  "get_extended_description (\<lambda>attempt. Response reply_empty)
     = \<lparr>result = Returned (None, []), posts = 1, sleeps = []\<rparr>"
  by (simp add: retry_unfold attempt_once_ok reply_empty_def parse_reply_empty)

text \<open>
  C5, amended. Let attempt \<open>a\<close> be reached (the attempts before it failed) and answered
  by a response. A status other than 200 is a failure: when attempts remain (\<open>a < 2\<close>)
  the executor sleeps \<open>a + 1\<close> seconds and posts again, so the response is not the final
  result; at the last attempt it gives the \<open>ERROR after retries\<close> result. A status-200
  response with an empty body is no failure: the executor returns the absent score and
  the empty description at once.
\<close>

theorem bad_status_retried_empty_body_parsed:
  assumes "a < 3" and "\<forall>k<a. \<exists>e. attempt_once (env k) = Inl e"
    and "env a = Response resp"
  shows "(status_code resp \<noteq> 200 \<and> a < 2 \<longrightarrow>
            a + 2 \<le> posts (get_extended_description env)
            \<and> take (a + 1) (sleeps (get_extended_description env)) = map Suc [0..<a + 1])
       \<and> (status_code resp \<noteq> 200 \<and> a = 2 \<longrightarrow>
            get_extended_description env
              = \<lparr>result = Returned (None, ''ERROR after retries: '' @ ''Ollama error ''
                                       @ str_int (status_code resp) @ '': '' @ body_text resp),
                 posts = 3, sleeps = [1, 2]\<rparr>)
       \<and> (status_code resp = 200 \<and> body_text resp = [] \<longrightarrow>
            get_extended_description env
              = \<lparr>result = Returned (None, []), posts = a + 1, sleeps = map Suc [0..<a]\<rparr>)"
proof -
  from assms(1) consider "a = 0" | "a = 1" | "a = 2" by linarith
  then show ?thesis
  proof cases
    case 1
    with assms(3) show ?thesis
      by (cases "status_code resp = 200")
         (auto simp: retry_unfold attempt_once_ok attempt_once_bad_status parse_reply_empty
               split: sum.splits)
  next
    case 2
    with assms(2) obtain e0 where "attempt_once (env 0) = Inl e0" by auto
    with 2 assms(3) show ?thesis
      by (cases "status_code resp = 200")
         (auto simp: retry_unfold attempt_once_ok attempt_once_bad_status parse_reply_empty
               split: sum.splits)
  next
    case 3
    have "(0::nat) < 2" "(1::nat) < 2" by simp_all
    with 3 assms(2) have "\<exists>e. attempt_once (env 0) = Inl e" "\<exists>e. attempt_once (env 1) = Inl e"
      by blast+
    then obtain e0 e1 where "attempt_once (env 0) = Inl e0" "attempt_once (env 1) = Inl e1"
      by blast
    with 3 assms(3) show ?thesis
      by (cases "status_code resp = 200")
         (auto simp: retry_unfold attempt_once_ok attempt_once_bad_status parse_reply_empty
               upt_rec numeral_2_eq_2 split: sum.splits)
  qed
qed

theorem bad_status_retried_empty_body_parsed_witness:
  "env_500_then_empty 0 = Response reply_500 \<and> status_code reply_500 \<noteq> 200
   \<and> 2 \<le> posts (get_extended_description env_500_then_empty)
   \<and> attempt_once (env_500_then_empty 0) = Inl ''Ollama error 500: overloaded''
   \<and> env_500_then_empty 1 = Response reply_empty
   \<and> status_code reply_empty = 200 \<and> body_text reply_empty = []
   \<and> get_extended_description env_500_then_empty
       = \<lparr>result = Returned (None, []), posts = 2, sleeps = [1]\<rparr>"
proof -
  have a: "env_500_then_empty 0 = Response reply_500" "status_code reply_500 \<noteq> 200"
    "attempt_once (env_500_then_empty 0) = Inl ''Ollama error 500: overloaded''"
    "env_500_then_empty 1 = Response reply_empty"
    "status_code reply_empty = 200" "body_text reply_empty = []"
    by (simp_all add: env_500_then_empty_def reply_500_def reply_empty_def attempt_once_def
          str_500)
  from bad_status_retried_empty_body_parsed[of 0 env_500_then_empty reply_500] a
  have b: "2 \<le> posts (get_extended_description env_500_then_empty)" by simp
  from bad_status_retried_empty_body_parsed[of 1 env_500_then_empty reply_empty] a
  have c: "get_extended_description env_500_then_empty
       = \<lparr>result = Returned (None, []), posts = 2, sleeps = [1]\<rparr>" by simp
  from a b c show ?thesis by simp
qed

section \<open>Validation and the network\<close>

lemma test_model_probe_reply: "test_model (Response probe_reply)"
  by (simp add: test_model_def probe_reply_def http_defs str_defs)

text \<open>
  C9, as the claim states it, fails on the synchronous script: \<open>process_csv\<close> calls
  \<open>test_model\<close> before it reads and validates the table, so on a table without the
  column \<open>privilege_score\<close> one health-check probe has been posted when the validation
  error is raised.
\<close>

theorem sync_probe_precedes_validation:
  "\<not> required_cols \<subseteq> set (columns table_without_score)
   \<and> process_csv table_without_score (Response probe_reply) (\<lambda>i. Raised ''unused'')
     = \<lparr>health_probes = 1, enrichment_posts = 0,
        outcome = Inl (MissingRequired {''privilege_score''})\<rparr>" (is "?a \<and> ?b")
proof -
  have "required_cols - set (columns table_without_score) = {''privilege_score''}"
    by (auto simp: required_cols_def table_without_score_def)
  moreover have ?a by (simp add: required_cols_def table_without_score_def)
  ultimately show ?thesis
    by (simp add: process_csv_def test_model_probe_reply)
qed

text \<open>
  C9, amended. On a table that lacks a required column, the asynchronous
  \<open>process_csv_async\<close> ends with the validation error that names the missing columns,
  with no health-check probe and no enrichment request posted. The synchronous
  \<open>process_csv\<close> posts the health-check probe first and no enrichment request: when the
  probe passes it ends with the same validation error, when the probe fails it exits
  with status 1.
\<close>

theorem validation_and_network:
  assumes "\<not> required_cols \<subseteq> set (columns df)"
  shows "process_csv_async df probe env order
           = \<lparr>health_probes = 0, enrichment_posts = 0,
              outcome = Inl (MissingRequired (required_cols - set (columns df)))\<rparr>
       \<and> process_csv df probe env1
           = \<lparr>health_probes = 1, enrichment_posts = 0,
              outcome = Inl (if test_model probe
                             then MissingRequired (required_cols - set (columns df))
                             else SystemExit 1)\<rparr>"
  using assms by (simp add: process_csv_async_def process_csv_def)

theorem validation_and_network_witness:
  "\<not> required_cols \<subseteq> set (columns table_without_score)
   \<and> process_csv_async table_without_score (Response probe_reply) env_rows [0]
       = \<lparr>health_probes = 0, enrichment_posts = 0,
          outcome = Inl (MissingRequired {''privilege_score''})\<rparr>"
proof -
  have m: "required_cols - set (columns table_without_score) = {''privilege_score''}"
    by (auto simp: required_cols_def table_without_score_def)
  have h: "\<not> required_cols \<subseteq> set (columns table_without_score)"
    by (simp add: required_cols_def table_without_score_def)
  from validation_and_network[OF h, of "Response probe_reply" env_rows "[0]"] m h
  show ?thesis by simp
qed

section \<open>The batch keeps every row\<close>

lemma as_completed_elems:
  "p \<in> set (as_completed order vals) \<Longrightarrow> p = (fst p, vals ! fst p)"
  by (auto simp: as_completed_def)

lemma map_fst_as_completed: "map fst (as_completed order vals) = order"
  by (simp add: as_completed_def comp_def)

lemma gather_in_task_order:
  assumes "distinct order" and "set order = {..<length vals}"
  shows "gather order vals = vals"
proof -
  let ?ps = "sort_key fst (as_completed order vals)"
  have srt: "sorted (map fst ?ps)" by (rule sorted_sort_key)
  have "distinct (map fst (as_completed order vals))"
    using assms(1) by (simp add: map_fst_as_completed)
  then have dist: "distinct (map fst ?ps)"
    by (metis distinct_map distinct_sort set_sort)
  have "set (map fst ?ps) = set order"
    by (simp add: as_completed_def image_image)
  with assms(2) have st: "set (map fst ?ps) = set [0..<length vals]"
    by (simp add: atLeast0LessThan)
  have keys: "map fst ?ps = [0..<length vals]"
    by (rule sorted_distinct_set_unique[OF srt dist _ _ st]) simp_all
  have "\<forall>p \<in> set ?ps. snd p = vals ! fst p"
    using as_completed_elems by fastforce
  then have "map snd ?ps = map (\<lambda>i. vals ! i) (map fst ?ps)"
    by (simp add: comp_def)
  with keys show ?thesis
    by (simp add: gather_def map_nth)
qed

lemma set_column_ok:
  assumes "length vals = length (rows df)"
  shows "\<exists>df'. set_column name vals df = Inr df'
           \<and> set (columns df') = insert name (set (columns df))
           \<and> rows df' = map (\<lambda>(r, v). r(name \<mapsto> v)) (zip (rows df) vals)"
  using assms by (cases "name \<in> set (columns df)") (auto simp: set_column_def)

lemma write_enriched_ok:
  assumes "required_cols \<subseteq> set (columns df)"
    and "length ss = length (rows df)" and "length ds = length (rows df)"
  shows "\<exists>out. write_enriched ss ds df = Inr out \<and> columns out = desired_cols
           \<and> length (rows out) = length (rows df)
           \<and> (\<forall>i<length (rows df). rows out ! i = enriched_row (rows df ! i) (ss ! i) (ds ! i))"
proof -
  from assms(1) have req: "''privilege_type'' \<in> set (columns df)"
    "''privilege_name'' \<in> set (columns df)" "''privilege_description'' \<in> set (columns df)"
    "''privilege_score'' \<in> set (columns df)"
    by (auto simp: required_cols_def)
  obtain df1 where df1: "set_column ''suggested_privilege_score'' ss df = Inr df1"
    and c1: "set (columns df1) = insert ''suggested_privilege_score'' (set (columns df))"
    and r1: "rows df1 = map (\<lambda>(r, v). r(''suggested_privilege_score'' \<mapsto> v)) (zip (rows df) ss)"
    using set_column_ok[OF assms(2)] by blast
  have l1: "length (rows df1) = length (rows df)" using r1 assms(2) by simp
  obtain df2 where df2: "set_column ''extended_description'' ds df1 = Inr df2"
    and c2: "set (columns df2) = insert ''extended_description'' (set (columns df1))"
    and r2: "rows df2 = map (\<lambda>(r, v). r(''extended_description'' \<mapsto> v)) (zip (rows df1) ds)"
    using set_column_ok[of ds df1] assms(3) l1 by metis
  have l2: "length (rows df2) = length (rows df)" using r2 l1 assms(3) by simp
  have nomiss: "filter (\<lambda>c. c \<notin> set (columns df2)) desired_cols = []"
    using req c1 c2 by (simp add: desired_cols_def)
  have w: "write_enriched ss ds df = Inr (select_columns desired_cols df2)"
    using df1 df2 nomiss by (simp add: write_enriched_def)
  have "\<forall>i<length (rows df). rows (select_columns desired_cols df2) ! i
          = enriched_row (rows df ! i) (ss ! i) (ds ! i)"
    using l1 l2 assms(2,3) by (simp add: select_columns_def r2 r1 enriched_row_def)
  with w l2 show ?thesis
    by (simp add: select_columns_def)
qed

lemma enriched_row_cells:
  "enriched_row r s d ''privilege_type'' = r ''privilege_type''"
  "enriched_row r s d ''privilege_name'' = r ''privilege_name''"
  "enriched_row r s d ''privilege_description'' = r ''privilege_description''"
  "enriched_row r s d ''privilege_score'' = r ''privilege_score''"
  "enriched_row r s d ''suggested_privilege_score'' = Some s"
  "enriched_row r s d ''extended_description'' = Some d"
  by (simp_all add: enriched_row_def desired_cols_def restrict_map_def)

lemma result_is_pair:
  "\<exists>score desc. result (get_extended_description env) = Returned (score, desc)"
  by (simp add: get_extended_description_def split: sum.splits)

lemma result_env_all_fail:
  "result (get_extended_description env_all_fail)
     = Returned (None, ''ERROR after retries: connection refused'')"
  by (simp add: retry_unfold env_all_fail_def reply_500_def attempt_once_def str_500)

lemma result_env_third_try:
  "result (get_extended_description env_third_try) = Returned (Some 7, ''ok'')"
  by (simp add: retry_unfold env_third_try_def reply_500_def reply_7_ok_def attempt_once_def
        str_500 parse_defs csv_defs char_defs str_defs int_defs)

text \<open>
  C1. On a table with the four required columns and after a passing health check, for
  every outcome of the posts and every order of completion of the tasks (a permutation
  of the row positions), \<open>process_csv_async\<close> writes a table of the six columns with as
  many rows as the input. Row \<open>i\<close> of the output has the four input cells of row \<open>i\<close> of
  the input, \<open>privilege_name\<close> among them, and the score and description that the
  executor returned for row \<open>i\<close>. The posts are arbitrary, so this covers the batch in
  which every request fails.
\<close>

theorem batch_keeps_every_row:
  assumes "required_cols \<subseteq> set (columns df)" and "test_model probe"
    and "distinct order" and "set order = {..<length (rows df)}"
  shows "\<exists>out. outcome (process_csv_async df probe env order) = Inr out
           \<and> columns out = desired_cols
           \<and> length (rows out) = length (rows df)
           \<and> (\<forall>i<length (rows df).
                 (rows out ! i) ''privilege_name'' = (rows df ! i) ''privilege_name''
               \<and> (rows out ! i) ''privilege_type'' = (rows df ! i) ''privilege_type''
               \<and> (rows out ! i) ''privilege_description'' = (rows df ! i) ''privilege_description''
               \<and> (rows out ! i) ''privilege_score'' = (rows df ! i) ''privilege_score''
               \<and> (\<exists>score desc.
                     result (get_extended_description (env i)) = Returned (score, desc)
                   \<and> (rows out ! i) ''suggested_privilege_score'' = Some (score_cell score)
                   \<and> (rows out ! i) ''extended_description'' = Some (Text desc)))"
proof -
  let ?n = "length (rows df)"
  let ?res = "map result (map (\<lambda>i. get_extended_description (env i)) [0..<?n])"
  let ?ss = "map (fst \<circ> split_result) ?res"
  let ?ds = "map (snd \<circ> split_result) ?res"
  have g: "gather order ?res = ?res"
    using assms(3,4) by (intro gather_in_task_order) simp_all
  have run: "outcome (process_csv_async df probe env order) = write_enriched ?ss ?ds df"
    using assms(1,2) g by (simp add: process_csv_async_def Let_def)
  have "length ?ss = ?n" "length ?ds = ?n" by simp_all
  from write_enriched_ok[OF assms(1) this] obtain out where
    out: "write_enriched ?ss ?ds df = Inr out" "columns out = desired_cols"
      "length (rows out) = ?n"
      "\<forall>i<?n. rows out ! i = enriched_row (rows df ! i) (?ss ! i) (?ds ! i)"
    by blast
  have "\<forall>i<?n. (\<exists>score desc.
                     result (get_extended_description (env i)) = Returned (score, desc)
                   \<and> ?ss ! i = score_cell score \<and> ?ds ! i = Text desc)"
  proof (intro allI impI)
    fix i assume i: "i < ?n"
    obtain score desc where r: "result (get_extended_description (env i)) = Returned (score, desc)"
      using result_is_pair by blast
    with i show "\<exists>score desc.
                     result (get_extended_description (env i)) = Returned (score, desc)
                   \<and> ?ss ! i = score_cell score \<and> ?ds ! i = Text desc"
      by (simp add: split_result_def)
  qed
  with out run show ?thesis
    by (intro exI[of _ out]) (simp add: enriched_row_cells)
qed

theorem batch_keeps_every_row_witness:
  "required_cols \<subseteq> set (columns two_rows) \<and> test_model (Response probe_reply)
   \<and> distinct [1, 0 :: nat] \<and> set [1, 0] = {..<length (rows two_rows)}
   \<and> (\<exists>out. outcome (process_csv_async two_rows (Response probe_reply) env_rows [1, 0]) = Inr out
          \<and> columns out = desired_cols \<and> length (rows out) = 2
          \<and> (rows out ! 0) ''privilege_name'' = Some (Text ''User.Read'')
          \<and> (rows out ! 0) ''suggested_privilege_score'' = Some (Text [])
          \<and> (rows out ! 0) ''extended_description''
              = Some (Text ''ERROR after retries: connection refused'')
          \<and> (rows out ! 1) ''privilege_name'' = Some (Text ''Mail.Send'')
          \<and> (rows out ! 1) ''suggested_privilege_score'' = Some (Number 7)
          \<and> (rows out ! 1) ''extended_description'' = Some (Text ''ok''))"
proof -
  have h1: "required_cols \<subseteq> set (columns two_rows)"
    by (simp add: required_cols_def two_rows_def)
  have h2: "test_model (Response probe_reply)" by (rule test_model_probe_reply)
  have h3: "distinct [1, 0 :: nat]" by simp
  have len: "length (rows two_rows) = 2" by (simp add: two_rows_def)
  have h4: "set [1, 0] = {..<length (rows two_rows)}" by (auto simp: len)
  from batch_keeps_every_row[OF h1 h2 h3 h4, of env_rows] obtain out where
    out: "outcome (process_csv_async two_rows (Response probe_reply) env_rows [1, 0]) = Inr out"
      "columns out = desired_cols" "length (rows out) = length (rows two_rows)"
    and cells: "\<forall>i<length (rows two_rows).
                 (rows out ! i) ''privilege_name'' = (rows two_rows ! i) ''privilege_name''
               \<and> (rows out ! i) ''privilege_type'' = (rows two_rows ! i) ''privilege_type''
               \<and> (rows out ! i) ''privilege_description'' = (rows two_rows ! i) ''privilege_description''
               \<and> (rows out ! i) ''privilege_score'' = (rows two_rows ! i) ''privilege_score''
               \<and> (\<exists>score desc.
                     result (get_extended_description (env_rows i)) = Returned (score, desc)
                   \<and> (rows out ! i) ''suggested_privilege_score'' = Some (score_cell score)
                   \<and> (rows out ! i) ''extended_description'' = Some (Text desc))"
    by blast
  from cells len have c0: "(rows out ! 0) ''privilege_name'' = Some (Text ''User.Read'')"
    "(rows out ! 0) ''suggested_privilege_score'' = Some (Text [])"
    "(rows out ! 0) ''extended_description'' = Some (Text ''ERROR after retries: connection refused'')"
    using result_env_all_fail by (auto simp: env_rows_def two_rows_def score_cell_def)
  have "(1::nat) < length (rows two_rows)" by (simp add: len)
  with cells have "(rows out ! 1) ''privilege_name'' = (rows two_rows ! 1) ''privilege_name''
               \<and> (\<exists>score desc.
                     result (get_extended_description (env_rows 1)) = Returned (score, desc)
                   \<and> (rows out ! 1) ''suggested_privilege_score'' = Some (score_cell score)
                   \<and> (rows out ! 1) ''extended_description'' = Some (Text desc))"
    by blast
  then have c1: "(rows out ! 1) ''privilege_name'' = Some (Text ''Mail.Send'')"
    "(rows out ! 1) ''suggested_privilege_score'' = Some (Number 7)"
    "(rows out ! 1) ''extended_description'' = Some (Text ''ok'')"
    using result_env_third_try by (auto simp: env_rows_def two_rows_def score_cell_def)
  from h1 h2 h3 h4 out len c0 c1 show ?thesis by auto
qed

section \<open>Replies of plain fields\<close>

text \<open>A line of one or two fields without delimiter, quote or line end inside is read
  as these fields, unless a field is longer than the field limit.\<close>

lemma readlines_from_one_line:
  "nl \<notin> set cs \<Longrightarrow>
     readlines_from acc cs = (if acc = [] \<and> cs = [] then [] else [rev acc @ cs])"
  by (induction cs arbitrary: acc) auto

lemma readlines_one_line:
  "nl \<notin> set cs \<Longrightarrow> cs \<noteq> [] \<Longrightarrow> readlines cs = [cs]"
  by (simp add: readlines_def readlines_from_one_line)

lemma in_field_plain_char:
  assumes "state_r r = IN_FIELD" and "plain_char c"
  shows "parse_process_char r (Ch c) = parse_add_char r c"
  using assms by (simp add: plain_char_def parse_process_char.simps)

lemma in_field_run:
  assumes "state_r r = IN_FIELD" and "\<forall>c\<in>set cs. plain_char c"
    and "length (field_r r) \<le> field_limit"
  shows "process_chars r (cs @ rest)
           = (if length (field_r r) + length cs \<le> field_limit
              then process_chars (r\<lparr>field_r := field_r r @ cs\<rparr>) rest
              else Inl FieldTooLong)"
  using assms
proof (induction cs arbitrary: r)
  case Nil
  then show ?case by simp
next
  case (Cons c cs)
  have step: "parse_process_char r (Ch c) = parse_add_char r c"
    using Cons.prems by (intro in_field_plain_char) simp_all
  show ?case
  proof (cases "field_limit \<le> length (field_r r)")
    case True
    then show ?thesis by (simp add: step parse_add_char_def)
  next
    case False
    let ?r' = "r\<lparr>field_r := field_r r @ [c]\<rparr>"
    have r': "state_r ?r' = IN_FIELD" "length (field_r ?r') \<le> field_limit"
      using Cons.prems False by simp_all
    have "process_chars r ((c # cs) @ rest) = process_chars ?r' (cs @ rest)"
      using False by (simp add: step parse_add_char_def)
    also have "\<dots> = (if length (field_r ?r') + length cs \<le> field_limit
              then process_chars (?r'\<lparr>field_r := field_r ?r' @ cs\<rparr>) rest
              else Inl FieldTooLong)"
      using Cons.prems r' by (intro Cons.IH) simp_all
    finally show ?thesis by simp
  qed
qed

lemma start_plain_char:
  assumes "state_r r = START_RECORD \<or> state_r r = START_FIELD" and "plain_char c"
    and "field_r r = []"
  shows "parse_process_char r (Ch c) = Inr (r\<lparr>state_r := IN_FIELD, field_r := [c]\<rparr>)"
  using assms
  by (auto simp: plain_char_def start_field_def parse_add_char_def field_limit_def is_eol_char_def
        parse_process_char.simps)

lemma start_run:
  assumes "state_r r = START_RECORD \<or> state_r r = START_FIELD" and "\<forall>c\<in>set cs. plain_char c"
    and "field_r r = []" and "cs \<noteq> []"
  shows "process_chars r (cs @ rest)
           = (if length cs \<le> field_limit
              then process_chars (r\<lparr>state_r := IN_FIELD, field_r := cs\<rparr>) rest
              else Inl FieldTooLong)"
proof -
  from assms(4) obtain c cs' where cs: "cs = c # cs'" by (cases cs) auto
  let ?r' = "r\<lparr>state_r := IN_FIELD, field_r := [c]\<rparr>"
  have "process_chars r (cs @ rest) = process_chars ?r' (cs' @ rest)"
    using start_plain_char[OF assms(1) _ assms(3), of c] assms(2) cs
    by (simp)
  also have "\<dots> = (if length (field_r ?r') + length cs' \<le> field_limit
              then process_chars (?r'\<lparr>field_r := field_r ?r' @ cs'\<rparr>) rest
              else Inl FieldTooLong)"
    using assms(2) cs by (intro in_field_run) (simp_all add: field_limit_def)
  finally show ?thesis using cs by simp
qed

lemma one_field_line:
  assumes "\<forall>c\<in>set f0. plain_char c" and "f0 \<noteq> []"
  shows "process_chars parse_reset f0
           = (if length f0 \<le> field_limit
              then Inr \<lparr>state_r = START_RECORD, fields_r = [f0], field_r = []\<rparr>
              else Inl FieldTooLong)"
  using start_run[of parse_reset f0 "[]"] assms
  by (simp add: parse_reset_def parse_save_field_def parse_process_char.simps)

lemma two_field_line:
  assumes "\<forall>c\<in>set f0. plain_char c" and "\<forall>c\<in>set f1. plain_char c"
  shows "process_chars parse_reset (f0 @ comma # f1)
           = (if length f0 \<le> field_limit \<and> length f1 \<le> field_limit
              then Inr \<lparr>state_r = START_RECORD, fields_r = [f0, f1], field_r = []\<rparr>
              else Inl FieldTooLong)"
proof -
  let ?r1 = "\<lparr>state_r = START_FIELD, fields_r = [f0], field_r = []\<rparr>"
  have second: "process_chars ?r1 f1
           = (if length f1 \<le> field_limit
              then Inr \<lparr>state_r = START_RECORD, fields_r = [f0, f1], field_r = []\<rparr>
              else Inl FieldTooLong)"
  proof (cases "f1 = []")
    case True
    then show ?thesis
      by (simp add: start_field_def parse_save_field_def parse_process_char.simps)
  next
    case False
    with start_run[of ?r1 f1 "[]"] assms(2) show ?thesis
      by (simp add: parse_save_field_def parse_process_char.simps)
  qed
  have first: "process_chars parse_reset (f0 @ comma # f1)
           = (if length f0 \<le> field_limit then process_chars ?r1 f1 else Inl FieldTooLong)"
  proof (cases "f0 = []")
    case True
    then show ?thesis
      by (simp add: parse_reset_def start_field_def parse_save_field_def is_eol_char_def
            comma_def nl_def cr_def dquote_def parse_process_char.simps)
  next
    case False
    with start_run[of parse_reset f0 "comma # f1"] assms(1) show ?thesis
      by (simp add: parse_reset_def parse_save_field_def comma_def nl_def cr_def
            parse_process_char.simps)
  qed
  show ?thesis unfolding first second by simp
qed

lemma plain_no_nl: "\<forall>c\<in>set cs. plain_char c \<Longrightarrow> nl \<notin> set cs"
  by (auto simp: plain_char_def)

lemma plain_no_comma: "\<forall>c\<in>set cs. plain_char c \<Longrightarrow> comma \<notin> set cs"
  by (auto simp: plain_char_def)

lemma reader_rows_at_end:
  "field_r parse_reset = []" "state_r parse_reset = START_RECORD" "fields_r parse_reset = []"
  by (simp_all add: parse_reset_def)

lemma csv_reader_two_fields:
  assumes "\<forall>c\<in>set f0. plain_char c" and "\<forall>c\<in>set f1. plain_char c"
  shows "csv_reader (f0 @ comma # f1)
           = (if length f0 \<le> field_limit \<and> length f1 \<le> field_limit
              then [Inr [f0, f1]] else [Inl FieldTooLong])"
proof -
  have "nl \<notin> set (f0 @ comma # f1)"
    using plain_no_nl[OF assms(1)] plain_no_nl[OF assms(2)] by (simp add: comma_def nl_def)
  then have "readlines (f0 @ comma # f1) = [f0 @ comma # f1]"
    by (intro readlines_one_line) simp_all
  then show ?thesis
    by (simp add: csv_reader_def two_field_line[OF assms] reader_rows_at_end)
qed

lemma csv_reader_one_field:
  assumes "\<forall>c\<in>set f0. plain_char c" and "f0 \<noteq> []"
  shows "csv_reader f0
           = (if length f0 \<le> field_limit then [Inr [f0]] else [Inl FieldTooLong])"
proof -
  have "readlines f0 = [f0]"
    using plain_no_nl[OF assms(1)] assms(2) by (intro readlines_one_line)
  then show ?thesis
    by (simp add: csv_reader_def one_field_line[OF assms] reader_rows_at_end)
qed

lemma split_first_comma_plain:
  "comma \<notin> set f0 \<Longrightarrow> split_first_comma (f0 @ comma # d) = (f0, d)"
  by (simp add: split_first_comma_def takeWhile_append dropWhile_append)

lemma no_fence_without_backtick:
  assumes "s = [] \<or> hd s \<noteq> backtick"
  shows "strip_code_fences s = s"
  using assms by (cases s) (auto simp: strip_code_fences_def startswith_def fence_def)

lemma two_field_reply:
  assumes "\<forall>c\<in>set f0. plain_char c" and "\<forall>c\<in>set d. plain_char c"
    and "f0 = [] \<or> hd f0 \<noteq> backtick"
  shows "parse_reply (f0 @ comma # d) = (py_int (strip f0), strip d)"
proof -
  let ?raw = "f0 @ comma # d"
  have "?raw = [] \<or> hd ?raw \<noteq> backtick"
    using assms(3) by (cases f0) (auto simp: comma_def backtick_def)
  then have f: "strip_code_fences ?raw = ?raw" by (rule no_fence_without_backtick)
  have fb: "split_first_comma ?raw = (f0, d)"
    using plain_no_comma[OF assms(1)] by (rule split_first_comma_plain)
  have "first_data_row (csv_reader ?raw) = None
        \<or> first_data_row (csv_reader ?raw) = Some (py_int (strip f0), strip d)"
    by (simp add: csv_reader_two_fields[OF assms(1,2)])
  then show ?thesis
    by (auto simp: parse_reply_def f fb)
qed

lemma digit_cases:
  "is_digit c \<Longrightarrow> c = CHR ''0'' \<or> c = CHR ''1'' \<or> c = CHR ''2'' \<or> c = CHR ''3'' \<or> c = CHR ''4''
     \<or> c = CHR ''5'' \<or> c = CHR ''6'' \<or> c = CHR ''7'' \<or> c = CHR ''8'' \<or> c = CHR ''9''"
  by (auto simp: is_digit_def)

lemma lower_char_digit: "is_digit c \<Longrightarrow> lower_char c = c"
  by (drule digit_cases) (elim disjE; simp add: lower_char_def upper_letters_def lower_letters_def)

lemma digit_facts:
  assumes "is_digit c"
  shows "\<not> py_isspace c" "c \<noteq> underscore" "c \<noteq> CHR ''-''" "c \<noteq> CHR ''+''"
    "plain_char c" "c \<noteq> backtick" "c \<noteq> CHR ''s''" "\<not> int_isspace c"
  using digit_cases[OF assms]
  by (auto simp: py_isspace_def int_isspace_def underscore_def plain_char_def comma_def
        dquote_def nl_def cr_def backtick_def)

lemma strip_with_id:
  assumes "s \<noteq> []" and "\<not> p (hd s)" and "\<not> p (last s)"
  shows "strip_with p s = s"
proof -
  from assms(1,2) have "dropWhile p s = s" by (cases s) auto
  moreover from assms(1,3) have "dropWhile p (rev s) = rev s"
    by (cases "rev s") (auto simp: hd_rev)
  ultimately show ?thesis by (simp add: strip_with_def)
qed

lemma strip_digits:
  assumes "ds \<noteq> []" and "\<forall>c\<in>set ds. is_digit c"
  shows "strip ds = ds"
  unfolding strip_def using assms digit_facts(1)
  by (intro strip_with_id) simp_all

lemma int_strip_digits:
  assumes "ds \<noteq> []" and "\<forall>c\<in>set ds. is_digit c"
  shows "strip_with int_isspace ds = ds"
  using assms digit_facts(8)
  by (intro strip_with_id) simp_all

lemma scan_all_digits:
  "\<forall>c\<in>set ds. is_digit c \<Longrightarrow> scan_digits False ds = Some ds"
  by (induction ds) (auto simp: digit_facts(2))

lemma py_int_digits:
  assumes "ds \<noteq> []" and "\<forall>c\<in>set ds. is_digit c" and "length ds \<le> int_max_str_digits"
  shows "py_int ds = Some (digits_value ds)"
proof -
  from assms(1,2) have "is_digit (hd ds)" by simp
  then have "hd ds \<noteq> CHR ''-''" "hd ds \<noteq> CHR ''+''" "hd ds \<noteq> underscore"
    by (simp_all add: digit_facts)
  with assms show ?thesis
    by (simp add: py_int_def int_strip_digits scan_all_digits)
qed
lemma first_score_row_range:
  "first_score_row rs = Some (Some n) \<Longrightarrow> 1 \<le> n \<and> n \<le> 20"
proof (induction rs)
  case Nil
  then show ?case by simp
next
  case (Cons x rest)
  show ?case
  proof (cases x)
    case (Inl e)
    with Cons.prems show ?thesis by simp
  next
    case (Inr row)
    consider "row = []" | "row \<noteq> []" "startswith (strip (lower (row ! 0))) ''suggested''"
      | "row \<noteq> []" "\<not> startswith (strip (lower (row ! 0))) ''suggested''"
        "py_int (strip (row ! 0)) = None"
      | score where "row \<noteq> []" "\<not> startswith (strip (lower (row ! 0))) ''suggested''"
        "py_int (strip (row ! 0)) = Some score"
      by (cases "py_int (strip (row ! 0))") auto
    then show ?thesis
    proof cases
      case 1
      with Cons Inr show ?thesis by simp
    next
      case 2
      with Cons Inr show ?thesis by simp
    next
      case 3
      with Cons Inr show ?thesis by simp
    next
      case 4
      with Cons.prems Inr show ?thesis by (simp split: if_splits)
    qed
  qed
qed

lemma parse_score_range: "parse_score raw = Some n \<Longrightarrow> 1 \<le> n \<and> n \<le> 20"
  using first_score_row_range
  by (auto simp: parse_score_def Let_def score_fallback_None split: option.splits)

lemma parse_score_digits:
  assumes "ds \<noteq> []" and "\<forall>c\<in>set ds. is_digit c" and "length ds \<le> int_max_str_digits"
  shows "parse_score ds
           = (if 1 \<le> digits_value ds \<and> digits_value ds \<le> 20 then Some (digits_value ds)
              else None)"
proof -
  have pl: "\<forall>c\<in>set ds. plain_char c" using assms(2) digit_facts(5) by blast
  from assms(1,2) have hd: "is_digit (hd ds)" by simp
  then have f: "strip_code_fences ds = ds"
    by (intro no_fence_without_backtick) (simp add: digit_facts)
  have "length ds \<le> field_limit"
    using assms(3) by (simp add: int_max_str_digits_def field_limit_def)
  then have rows: "csv_reader ds = [Inr [ds]]"
    by (simp add: csv_reader_one_field[OF pl assms(1)])
  have low: "lower ds = ds"
    using assms(2) by (simp add: lower_def lower_char_digit map_idI)
  have nh: "\<not> startswith ds ''suggested''"
    using assms(1) hd digit_facts(7) by (cases ds) (auto simp: startswith_def)
  have "first_score_row [Inr [ds]]
          = (if 1 \<le> digits_value ds \<and> digits_value ds \<le> 20
             then Some (Some (digits_value ds)) else Some None)"
    using nh by (simp add: low strip_digits[OF assms(1,2)] py_int_digits[OF assms])
  then show ?thesis
    by (simp add: parse_score_def f rows)
qed

section \<open>The first data row\<close>

lemma first_data_row_skip:
  assumes "\<forall>x\<in>set pre. \<exists>r. x = Inr r
             \<and> (r = [] \<or> startswith (strip (lower (r ! 0))) ''suggested'' \<or> length r < 2)"
  shows "first_data_row (pre @ xs) = first_data_row xs"
  using assms
proof (induction pre)
  case Nil
  then show ?case by simp
next
  case (Cons x pre)
  then obtain r where "x = Inr r"
    "r = [] \<or> startswith (strip (lower (r ! 0))) ''suggested'' \<or> length r < 2"
    by auto
  with Cons show ?case by auto
qed

text \<open>
  C8, as the claim states it, fails for a row of more than two fields: the description
  is not the fields from 1 on rejoined with commas. Each field is trimmed before the
  join, so the blank after an unquoted comma is lost: the fields \<open>read\<close> and \<open>write\<close>
  with a leading blank rejoin to \<open>read, write\<close>, and the parser returns \<open>read,write\<close>.
\<close>

theorem extra_fields_trimmed_before_join:
  "csv_reader ''7,read, write'' = [Inr [''7'', ''read'', '' write'']]
   \<and> join_comma [''read'', '' write''] = ''read, write''
   \<and> parse_reply ''7,read, write'' = (Some 7, ''read,write'')"
  by (simp add: parse_defs csv_defs char_defs str_defs int_defs)

text \<open>
  C8, amended. Let the reader yield, on the reply without its code fences, rows that the
  loop skips (empty rows, rows whose first field, in lower case and trimmed, starts with
  \<open>suggested\<close>, rows of one field) and then a row of two fields or more that is no such
  header. The parser returns \<open>int\<close> of the trimmed field 0 as the score, absent when
  that is no integer, and as the description the trimmed field 1 when the row has two
  fields, and otherwise the fields from 1 on, each trimmed, joined with commas.
\<close>

theorem first_data_row_parsed:
  assumes "csv_reader (strip_code_fences raw) = pre @ Inr row # rest"
    and "\<forall>x\<in>set pre. \<exists>r. x = Inr r
           \<and> (r = [] \<or> startswith (strip (lower (r ! 0))) ''suggested'' \<or> length r < 2)"
    and "2 \<le> length row"
    and "\<not> startswith (strip (lower (row ! 0))) ''suggested''"
  shows "parse_reply raw
           = (py_int (strip (row ! 0)),
              if length row = 2 then strip (row ! 1) else join_comma (map strip (tl row)))"
proof -
  from assms(3) have ne: "row \<noteq> []" by auto
  have "first_data_row (csv_reader (strip_code_fences raw)) = first_data_row (Inr row # rest)"
    unfolding assms(1) by (rule first_data_row_skip[OF assms(2)])
  also have "\<dots> = Some (py_int (strip (row ! 0)),
              if length row = 2 then strip (row ! 1) else join_comma (map strip (tl row)))"
    using assms(3,4) ne by (auto simp: Let_def)
  finally show ?thesis by (simp add: parse_reply_def)
qed

lemma csv_reader_reply_with_header:
  "csv_reader reply_with_header
     = [Inr [''suggested_privilege_score'', ''extended_description'']]
       @ Inr [''7'', ''Allows read access, broadly''] # []"
  by (simp add: reply_with_header_def csv_defs char_defs)

theorem first_data_row_parsed_witness:
  "csv_reader (strip_code_fences reply_with_header)
     = [Inr [''suggested_privilege_score'', ''extended_description'']]
       @ Inr [''7'', ''Allows read access, broadly''] # []
   \<and> startswith (strip (lower ''suggested_privilege_score'')) ''suggested''
   \<and> \<not> startswith (strip (lower ''7'')) ''suggested''
   \<and> parse_reply reply_with_header = (Some 7, ''Allows read access, broadly'')
   \<and> csv_reader (strip_code_fences ''7,read, write'') = [] @ Inr [''7'', ''read'', '' write''] # []
   \<and> parse_reply ''7,read, write'' = (Some 7, ''read,write'')"
proof -
  have f: "strip_code_fences reply_with_header = reply_with_header"
    by (simp add: reply_with_header_def strip_code_fences_def fence_def str_defs char_defs)
  have a: "csv_reader (strip_code_fences reply_with_header)
     = [Inr [''suggested_privilege_score'', ''extended_description'']]
       @ Inr [''7'', ''Allows read access, broadly''] # []"
    unfolding f by (rule csv_reader_reply_with_header)
  have b: "startswith (strip (lower ''suggested_privilege_score'')) ''suggested''"
    by (simp add: str_defs)
  then have b': "\<forall>x\<in>set [Inr [''suggested_privilege_score'', ''extended_description'']].
          \<exists>r. x = Inr r
           \<and> (r = [] \<or> startswith (strip (lower (r ! 0))) ''suggested'' \<or> length r < 2)"
    by simp
  have c: "\<not> startswith (strip (lower ''7'')) ''suggested''"
    by (simp add: str_defs)
  then have c2: "\<not> startswith (strip (lower ([''7'', ''Allows read access, broadly''] ! 0))) ''suggested''"
    and c3: "\<not> startswith (strip (lower ([''7'', ''read'', '' write''] ! 0))) ''suggested''"
    by simp_all
  have d: "2 \<le> length [''7'', ''Allows read access, broadly'']"
    and d3: "2 \<le> length [''7'', ''read'', '' write'']" by simp_all
  have i: "py_int (strip ''7'') = Some 7"
    "strip ''Allows read access, broadly'' = ''Allows read access, broadly''"
    "join_comma (map strip [''read'', '' write'']) = ''read,write''"
    by (simp_all add: int_defs str_defs char_defs)
  from first_data_row_parsed[OF a b' d c2] i
  have p: "parse_reply reply_with_header = (Some 7, ''Allows read access, broadly'')"
    by simp
  have a3: "csv_reader (strip_code_fences ''7,read, write'')
              = [] @ Inr [''7'', ''read'', '' write''] # []"
    by (simp add: strip_code_fences_def fence_def csv_defs char_defs str_defs
          parse_process_char.simps)
  have e3: "\<forall>x\<in>set ([] :: (csv_error + string list) list). \<exists>r. x = Inr r
           \<and> (r = [] \<or> startswith (strip (lower (r ! 0))) ''suggested'' \<or> length r < 2)"
    by simp
  from first_data_row_parsed[OF a3 e3 d3 c3] i
  have p3: "parse_reply ''7,read, write'' = (Some 7, ''read,write'')"
    by simp
  from a b c p a3 p3 show ?thesis by blast
qed

section \<open>The range of the score\<close>

lemma first_score_row_skip:
  assumes "\<forall>x\<in>set pre. \<exists>r. x = Inr r
             \<and> (r = [] \<or> startswith (strip (lower (r ! 0))) ''suggested''
                \<or> py_int (strip (r ! 0)) = None)"
  shows "first_score_row (pre @ xs) = first_score_row xs"
  using assms
proof (induction pre)
  case Nil
  then show ?case by simp
next
  case (Cons x pre)
  then obtain r where "x = Inr r"
    "r = [] \<or> startswith (strip (lower (r ! 0))) ''suggested'' \<or> py_int (strip (r ! 0)) = None"
    by auto
  with Cons show ?case by auto
qed

lemma parse_score_first_integer:
  assumes "csv_reader (strip_code_fences raw) = pre @ Inr row # rest"
    and "\<forall>x\<in>set pre. \<exists>r. x = Inr r
           \<and> (r = [] \<or> startswith (strip (lower (r ! 0))) ''suggested''
              \<or> py_int (strip (r ! 0)) = None)"
    and "row \<noteq> []" and "\<not> startswith (strip (lower (row ! 0))) ''suggested''"
    and "py_int (strip (row ! 0)) = Some n"
  shows "parse_score raw = (if 1 \<le> n \<and> n \<le> 20 then Some n else None)"
proof -
  have "first_score_row (csv_reader (strip_code_fences raw)) = first_score_row (Inr row # rest)"
    unfolding assms(1) by (rule first_score_row_skip[OF assms(2)])
  also have "\<dots> = Some (if 1 \<le> n \<and> n \<le> 20 then Some n else None)"
    using assms(3,4,5) by simp
  finally show ?thesis by (simp add: parse_score_def)
qed

lemma parse_score_no_integer:
  assumes "\<forall>x\<in>set (csv_reader (strip_code_fences raw)). \<exists>r. x = Inr r
           \<and> (r = [] \<or> startswith (strip (lower (r ! 0))) ''suggested''
              \<or> py_int (strip (r ! 0)) = None)"
  shows "parse_score raw = None"
proof -
  have "first_score_row (csv_reader (strip_code_fences raw) @ []) = first_score_row []"
    by (rule first_score_row_skip[OF assms])
  then show ?thesis by (simp add: parse_score_def score_fallback_None)
qed

lemma parse_reply_score_unchecked:
  assumes "csv_reader (strip_code_fences raw) = pre @ Inr row # rest"
    and "\<forall>x\<in>set pre. \<exists>r. x = Inr r
           \<and> (r = [] \<or> startswith (strip (lower (r ! 0))) ''suggested'' \<or> length r < 2)"
    and "2 \<le> length row" and "\<not> startswith (strip (lower (row ! 0))) ''suggested''"
  shows "fst (parse_reply raw) = py_int (strip (row ! 0))"
proof -
  from assms(3) have ne: "row \<noteq> []" by auto
  have "first_data_row (csv_reader (strip_code_fences raw)) = first_data_row (Inr row # rest)"
    unfolding assms(1) by (rule first_data_row_skip[OF assms(2)])
  also have "\<exists>d. \<dots> = Some (py_int (strip (row ! 0)), d)"
    using assms(3,4) ne by (simp add: Let_def)
  finally obtain d where
    "first_data_row (csv_reader (strip_code_fences raw)) = Some (py_int (strip (row ! 0)), d)"
    by blast
  then show ?thesis by (simp add: parse_reply_def)
qed

text \<open>
  C4, as the claim states it, fails on the two-field parser of
  \<open>get_extended_description\<close>: it has no range check, so the score fields 25 and 0 come
  back as the scores 25 and 0, also through the asynchronous executor.
\<close>

theorem out_of_range_score_returned:
  "parse_reply ''25,Full access'' = (Some 25, ''Full access'')
   \<and> parse_reply ''0,No access'' = (Some 0, ''No access'')
   \<and> result (get_extended_description (\<lambda>attempt. Response reply_25))
       = Returned (Some 25, ''Full access'')"
  by (simp add: retry_unfold attempt_once_def reply_25_def parse_defs csv_defs char_defs
        str_defs int_defs parse_process_char.simps)

text \<open>
  C4, amended. The score parser of \<open>get_suggested_score\<close> checks the range. Let the
  reader yield, on the reply without its code fences, rows that the loop passes over
  (empty rows, header rows, rows whose trimmed first field is no integer) and then a
  row whose trimmed first field is the integer \<open>n\<close>: the score is \<open>n\<close> when \<open>n\<close> lies in
  1..20 and absent otherwise, so an integer out of range is neither replaced by a
  default nor clamped. When the loop passes over every row the score is absent. The
  two-field parser of \<open>get_extended_description\<close> has no range check: on a first data
  row of two fields or more its score is whatever \<open>int\<close> makes of the trimmed field 0,
  absent when that is no integer and the integer itself otherwise, whatever its value;
  the same holds for a reply \<open>f0,d\<close> of two plain fields. A score field of decimal
  digits has its value as integer, and no reply makes the score parser return a score
  outside 1..20.
\<close>

theorem range_check_only_in_score_parser:
  "(\<forall>raw pre row rest n.
      csv_reader (strip_code_fences raw) = pre @ Inr row # rest
      \<and> (\<forall>x\<in>set pre. \<exists>r. x = Inr r
             \<and> (r = [] \<or> startswith (strip (lower (r ! 0))) ''suggested''
                \<or> py_int (strip (r ! 0)) = None))
      \<and> row \<noteq> [] \<and> \<not> startswith (strip (lower (row ! 0))) ''suggested''
      \<and> py_int (strip (row ! 0)) = Some n
      \<longrightarrow> parse_score raw = (if 1 \<le> n \<and> n \<le> 20 then Some n else None))
   \<and> (\<forall>raw.
      (\<forall>x\<in>set (csv_reader (strip_code_fences raw)). \<exists>r. x = Inr r
             \<and> (r = [] \<or> startswith (strip (lower (r ! 0))) ''suggested''
                \<or> py_int (strip (r ! 0)) = None))
      \<longrightarrow> parse_score raw = None)
   \<and> (\<forall>raw pre row rest.
      csv_reader (strip_code_fences raw) = pre @ Inr row # rest
      \<and> (\<forall>x\<in>set pre. \<exists>r. x = Inr r
             \<and> (r = [] \<or> startswith (strip (lower (r ! 0))) ''suggested'' \<or> length r < 2))
      \<and> 2 \<le> length row \<and> \<not> startswith (strip (lower (row ! 0))) ''suggested''
      \<longrightarrow> fst (parse_reply raw) = py_int (strip (row ! 0)))
   \<and> (\<forall>f0 d. (\<forall>c\<in>set f0. plain_char c) \<and> (\<forall>c\<in>set d. plain_char c)
         \<and> (f0 = [] \<or> hd f0 \<noteq> backtick)
      \<longrightarrow> parse_reply (f0 @ comma # d) = (py_int (strip f0), strip d))
   \<and> (\<forall>ds. ds \<noteq> [] \<and> (\<forall>c\<in>set ds. is_digit c) \<and> length ds \<le> int_max_str_digits
      \<longrightarrow> py_int (strip ds) = Some (digits_value ds)
        \<and> parse_score ds
            = (if 1 \<le> digits_value ds \<and> digits_value ds \<le> 20
               then Some (digits_value ds) else None))
   \<and> (\<forall>raw n. parse_score raw = Some n \<longrightarrow> 1 \<le> n \<and> n \<le> 20)"
proof -
  have a: "\<forall>raw pre row rest n.
      csv_reader (strip_code_fences raw) = pre @ Inr row # rest
      \<and> (\<forall>x\<in>set pre. \<exists>r. x = Inr r
             \<and> (r = [] \<or> startswith (strip (lower (r ! 0))) ''suggested''
                \<or> py_int (strip (r ! 0)) = None))
      \<and> row \<noteq> [] \<and> \<not> startswith (strip (lower (row ! 0))) ''suggested''
      \<and> py_int (strip (row ! 0)) = Some n
      \<longrightarrow> parse_score raw = (if 1 \<le> n \<and> n \<le> 20 then Some n else None)"
    using parse_score_first_integer by blast
  have a2: "\<forall>raw.
      (\<forall>x\<in>set (csv_reader (strip_code_fences raw)). \<exists>r. x = Inr r
             \<and> (r = [] \<or> startswith (strip (lower (r ! 0))) ''suggested''
                \<or> py_int (strip (r ! 0)) = None))
      \<longrightarrow> parse_score raw = None"
    using parse_score_no_integer by blast
  have b: "\<forall>raw pre row rest.
      csv_reader (strip_code_fences raw) = pre @ Inr row # rest
      \<and> (\<forall>x\<in>set pre. \<exists>r. x = Inr r
             \<and> (r = [] \<or> startswith (strip (lower (r ! 0))) ''suggested'' \<or> length r < 2))
      \<and> 2 \<le> length row \<and> \<not> startswith (strip (lower (row ! 0))) ''suggested''
      \<longrightarrow> fst (parse_reply raw) = py_int (strip (row ! 0))"
    using parse_reply_score_unchecked by blast
  have c: "\<forall>f0 d. (\<forall>c\<in>set f0. plain_char c) \<and> (\<forall>c\<in>set d. plain_char c)
         \<and> (f0 = [] \<or> hd f0 \<noteq> backtick)
      \<longrightarrow> parse_reply (f0 @ comma # d) = (py_int (strip f0), strip d)"
    using two_field_reply by blast
  have d: "\<forall>ds. ds \<noteq> [] \<and> (\<forall>c\<in>set ds. is_digit c) \<and> length ds \<le> int_max_str_digits
      \<longrightarrow> py_int (strip ds) = Some (digits_value ds)
        \<and> parse_score ds
            = (if 1 \<le> digits_value ds \<and> digits_value ds \<le> 20
               then Some (digits_value ds) else None)"
    by (simp add: strip_digits py_int_digits parse_score_digits)
  have e: "\<forall>raw n. parse_score raw = Some n \<longrightarrow> 1 \<le> n \<and> n \<le> 20"
    using parse_score_range by blast
  from a a2 b c d e show ?thesis by (intro conjI)
qed

theorem range_check_only_in_score_parser_witness:
  "csv_reader (strip_code_fences ''-5'') = [] @ Inr [''-5''] # []
   \<and> py_int (strip ''-5'') = Some (- 5)
   \<and> parse_score ''-5'' = None
   \<and> csv_reader (strip_code_fences header_then_25)
       = [Inr [''suggested_privilege_score'']] @ Inr [''25''] # []
   \<and> startswith (strip (lower ''suggested_privilege_score'')) ''suggested''
   \<and> \<not> startswith (strip (lower ''25'')) ''suggested''
   \<and> py_int (strip ''25'') = Some 25
   \<and> parse_score header_then_25 = None
   \<and> csv_reader (strip_code_fences ''7'') = [] @ Inr [''7''] # []
   \<and> py_int (strip ''7'') = Some 7
   \<and> parse_score ''7'' = Some 7 \<and> (1::int) \<le> 7 \<and> (7::int) \<le> 20
   \<and> csv_reader (strip_code_fences ''25,Full access'') = [] @ Inr [''25'', ''Full access''] # []
   \<and> fst (parse_reply ''25,Full access'') = Some 25
   \<and> list_all plain_char ''high'' \<and> list_all plain_char ''Full access''
   \<and> hd ''high'' \<noteq> backtick \<and> py_int (strip ''high'') = None
   \<and> parse_reply (''high'' @ comma # ''Full access'') = (None, ''Full access'')
   \<and> list_all is_digit ''25'' \<and> length ''25'' \<le> int_max_str_digits
   \<and> digits_value ''25'' = 25 \<and> parse_score ''25'' = None
   \<and> csv_reader (strip_code_fences ''high'') = [Inr [''high'']]
   \<and> parse_score ''high'' = None"
proof -
  note ev = strip_code_fences_def fence_def csv_defs char_defs str_defs int_defs
  have rows: "csv_reader (strip_code_fences ''-5'') = [] @ Inr [''-5''] # []"
    "csv_reader (strip_code_fences header_then_25)
       = [Inr [''suggested_privilege_score'']] @ Inr [''25''] # []"
    "csv_reader (strip_code_fences ''7'') = [] @ Inr [''7''] # []"
    "csv_reader (strip_code_fences ''25,Full access'') = [] @ Inr [''25'', ''Full access''] # []"
    by (simp_all add: header_then_25_def ev)
  have rows_high: "csv_reader (strip_code_fences ''high'') = [Inr [''high'']]"
    by (simp add: ev)
  have ints: "py_int (strip ''-5'') = Some (- 5)" "py_int (strip ''25'') = Some 25"
    "py_int (strip ''7'') = Some 7" "py_int (strip ''high'') = None"
    "digits_value ''25'' = 25" "length ''25'' \<le> int_max_str_digits"
    by (simp_all add: ev)
  have hdr: "startswith (strip (lower ''suggested_privilege_score'')) ''suggested''"
    "\<not> startswith (strip (lower ''25'')) ''suggested''"
    "\<not> startswith (strip (lower ''-5'')) ''suggested''"
    "\<not> startswith (strip (lower ''7'')) ''suggested''"
    by (simp_all add: str_defs)
  have pl: "list_all plain_char ''high''" "list_all plain_char ''Full access''"
    "hd ''high'' \<noteq> backtick" "list_all is_digit ''25''"
    "strip ''Full access'' = ''Full access''"
    by (simp_all add: plain_char_def is_digit_def ev)
  note main = range_check_only_in_score_parser
  have s1: "parse_score ''-5'' = None"
    using main[THEN conjunct1, rule_format, of "''-5''" "[]" "[''-5'']" "[]" "- 5"]
      rows(1) ints(1) hdr(3) by simp
  have s2: "parse_score header_then_25 = None"
    using main[THEN conjunct1, rule_format, of header_then_25
        "[Inr [''suggested_privilege_score'']]" "[''25'']" "[]" 25]
      rows(2) ints(2) hdr(1,2) by simp
  have s3: "parse_score ''7'' = Some 7"
    using main[THEN conjunct1, rule_format, of "''7''" "[]" "[''7'']" "[]" 7]
      rows(3) ints(3) hdr(4) by simp
  have s4: "(1::int) \<le> 7 \<and> (7::int) \<le> 20"
    using main[THEN conjunct2, THEN conjunct2, THEN conjunct2, THEN conjunct2, THEN conjunct2, rule_format,
        of "''7''" 7] s3 by simp
  have s5: "fst (parse_reply ''25,Full access'') = Some 25"
    using main[THEN conjunct2, THEN conjunct2, THEN conjunct1, rule_format,
        of "''25,Full access''" "[]" "[''25'', ''Full access'']" "[]"]
      rows(4) ints(2) hdr(2) by simp
  have s6: "parse_reply (''high'' @ comma # ''Full access'') = (None, ''Full access'')"
    using main[THEN conjunct2, THEN conjunct2, THEN conjunct2, THEN conjunct1, rule_format,
        of "''high''" "''Full access''"] pl ints(4)
    by (simp add: list_all_iff)
  have s7: "parse_score ''25'' = None"
    using main[THEN conjunct2, THEN conjunct2, THEN conjunct2, THEN conjunct2, THEN conjunct1, rule_format,
        of "''25''"] pl(4) ints(5,6)
    by (simp add: list_all_iff)
  have s8: "parse_score ''high'' = None"
    using main[THEN conjunct2, THEN conjunct1, rule_format, of "''high''"] rows_high ints(4)
    by simp
  from rows rows_high ints hdr pl s1 s2 s3 s4 s5 s6 s7 s8 show ?thesis by simp
qed

section \<open>The cap on requests in flight\<close>

lemma count_update:
  "i < length xs \<Longrightarrow>
     length (filter P (xs[i := y])) + (if P (xs ! i) then 1 else 0)
       = length (filter P xs) + (if P y then 1 else 0)"
proof (induction xs arbitrary: i)
  case Nil
  then show ?case by simp
next
  case (Cons x xs)
  then show ?case by (cases i) auto
qed

lemma enter_counts:
  assumes "enter i b = Some b'"
  shows "length (tasks b') = length (tasks b)" "Suc (sem_value b') = sem_value b"
    "in_flight b' = Suc (in_flight b)" "Suc (pending b') = pending b"
proof -
  from assms have i: "i < length (tasks b)" "tasks b ! i = Pending" "0 < sem_value b"
    and b': "b' = \<lparr>sem_value = sem_value b - 1, tasks = (tasks b)[i := InFlight]\<rparr>"
    by (auto simp: enter_def split: if_splits)
  show "length (tasks b') = length (tasks b)" "Suc (sem_value b') = sem_value b"
    using i b' by simp_all
  show "in_flight b' = Suc (in_flight b)"
    using count_update[OF i(1), of "\<lambda>p. p = InFlight" InFlight] i(2) b'
    by (simp add: in_flight_def)
  show "Suc (pending b') = pending b"
    using count_update[OF i(1), of "\<lambda>p. p = Pending" InFlight] i(2) b'
    by (simp add: pending_def)
qed

lemma leave_counts:
  assumes "leave env i b = Some b'"
  shows "length (tasks b') = length (tasks b)" "sem_value b' = Suc (sem_value b)"
    "Suc (in_flight b') = in_flight b" "pending b' = pending b"
proof -
  from assms have i: "i < length (tasks b)" "tasks b ! i = InFlight"
    and b': "b' = \<lparr>sem_value = sem_value b + 1,
        tasks = (tasks b)[i := Completed (result (get_extended_description (env i)))]\<rparr>"
    by (auto simp: leave_def split: if_splits)
  show "length (tasks b') = length (tasks b)" "sem_value b' = Suc (sem_value b)"
    using i b' by simp_all
  show "Suc (in_flight b') = in_flight b"
    using count_update[OF i(1), of "\<lambda>p. p = InFlight"
        "Completed (result (get_extended_description (env i)))"] i(2) b'
    by (simp add: in_flight_def)
  show "pending b' = pending b"
    using count_update[OF i(1), of "\<lambda>p. p = Pending"
        "Completed (result (get_extended_description (env i)))"] i(2) b'
    by (simp add: pending_def)
qed

lemma enter_settled: "enter i b = Some b' \<Longrightarrow> settled env b \<Longrightarrow> settled env b'"
  by (auto simp: enter_def settled_def nth_list_update split: if_splits)

lemma leave_settled: "leave env i b = Some b' \<Longrightarrow> settled env b \<Longrightarrow> settled env b'"
  by (auto simp: leave_def settled_def nth_list_update split: if_splits)

lemma run_invariant:
  assumes "run_of env cap m k b"
  shows "length (tasks b) = m \<and> sem_value b + in_flight b = cap
       \<and> k + 2 * pending b + in_flight b = 2 * m \<and> settled env b"
  using assms
proof (induction rule: run_of.induct)
  case run_start
  show ?case
    by (simp add: start_batch_def in_flight_def pending_def settled_def)
next
  case (run_step k b b')
  from run_step.hyps(2) show ?case
  proof (cases rule: step.cases)
    case (step_enter i)
    from enter_counts[OF this] enter_settled[OF this] run_step.IH show ?thesis by auto
  next
    case (step_leave i)
    from leave_counts[OF this] leave_settled[OF this] run_step.IH show ?thesis by auto
  qed
qed

lemma count_zero_iff: "filter P xs = [] \<longleftrightarrow> (\<forall>i<length xs. \<not> P (xs ! i))"
  by (simp add: filter_empty_conv all_set_conv_all_nth)

lemma stuck_all_completed:
  assumes "stuck env b" and "0 < cap" and "sem_value b + in_flight b = cap"
    and "settled env b"
  shows "in_flight b = 0 \<and> pending b = 0
       \<and> tasks b = map (\<lambda>i. Completed (result (get_extended_description (env i))))
                      [0..<length (tasks b)]"
proof -
  have nofl: "\<forall>i<length (tasks b). tasks b ! i \<noteq> InFlight"
    using assms(1) by (auto simp: stuck_def leave_def)
  then have fl: "in_flight b = 0"
    by (simp add: in_flight_def count_zero_iff)
  with assms(2,3) have "0 < sem_value b" by simp
  then have nopend: "\<forall>i<length (tasks b). tasks b ! i \<noteq> Pending"
    using assms(1) by (auto simp: stuck_def enter_def)
  then have pe: "pending b = 0"
    by (simp add: pending_def count_zero_iff)
  have "\<forall>i<length (tasks b).
          tasks b ! i = Completed (result (get_extended_description (env i)))"
    using assms(4) nofl nopend by (auto simp: settled_def)
  then have "tasks b = map (\<lambda>i. Completed (result (get_extended_description (env i))))
                      [0..<length (tasks b)]"
    by (intro nth_equalityI) simp_all
  with fl pe show ?thesis by simp
qed

lemma not_stuck_step:
  "\<not> stuck env b \<Longrightarrow> \<exists>b'. step env b b'"
  by (auto simp: stuck_def intro: step.intros)

lemma stuck_iff:
  "stuck env b \<longleftrightarrow> (\<forall>p\<in>set (tasks b). p \<noteq> InFlight \<and> (p = Pending \<longrightarrow> sem_value b = 0))"
proof -
  have "stuck env b \<longleftrightarrow>
          (\<forall>i<length (tasks b). tasks b ! i \<noteq> InFlight
             \<and> (tasks b ! i = Pending \<longrightarrow> sem_value b = 0))"
    unfolding stuck_def enter_def leave_def by (intro all_cong) auto
  then show ?thesis
    by (simp add: all_set_conv_all_nth)
qed

text \<open>
  C3. In every state that a batch of \<open>m\<close> tasks under the cap \<open>cap\<close> can reach, at most
  \<open>cap\<close> tasks are in flight. A run has at most \<open>2 * m\<close> steps; with a positive cap a
  run of fewer steps can always go on, and a state in which no task can enter or leave
  is reached after exactly \<open>2 * m\<close> steps with no task in flight and every task
  completed with the result of its own executor.
\<close>

theorem gate_caps_and_completes:
  assumes "run_of env cap m k b"
  shows "in_flight b \<le> cap \<and> length (tasks b) = m \<and> k \<le> 2 * m
       \<and> (0 < cap \<and> k < 2 * m \<longrightarrow> (\<exists>b'. step env b b'))
       \<and> (0 < cap \<and> stuck env b \<longrightarrow>
             k = 2 * m \<and> in_flight b = 0
           \<and> tasks b = map (\<lambda>i. Completed (result (get_extended_description (env i)))) [0..<m])"
proof -
  from run_invariant[OF assms] have inv: "length (tasks b) = m"
    "sem_value b + in_flight b = cap" "k + 2 * pending b + in_flight b = 2 * m"
    "settled env b" by simp_all
  have fin: "k = 2 * m \<and> in_flight b = 0
           \<and> tasks b = map (\<lambda>i. Completed (result (get_extended_description (env i)))) [0..<m]"
    if "0 < cap" "stuck env b"
    using stuck_all_completed[OF that(2,1) inv(2,4)] inv(1,3) by simp
  from fin have "\<exists>b'. step env b b'" if "0 < cap" "k < 2 * m"
    using that not_stuck_step[of env b] by auto
  with inv fin show ?thesis by auto
qed

lemma play_run:
  "run_of env cap m k b \<Longrightarrow> play env evs b = Some b' \<Longrightarrow> run_of env cap m (k + length evs) b'"
proof (induction evs arbitrary: k b)
  case Nil
  then show ?case by simp
next
  case (Cons ev evs)
  show ?case
  proof (cases ev)
    case (Enter i)
    with Cons.prems(2) obtain b1 where b1: "enter i b = Some b1" "play env evs b1 = Some b'"
      by (auto split: option.splits)
    from Cons.prems(1) b1(1) have "run_of env cap m (Suc k) b1"
      by (intro run_step) (auto intro: step.intros)
    from Cons.IH[OF this b1(2)] show ?thesis by simp
  next
    case (Leave i)
    with Cons.prems(2) obtain b1 where b1: "leave env i b = Some b1" "play env evs b1 = Some b'"
      by (auto split: option.splits)
    from Cons.prems(1) b1(1) have "run_of env cap m (Suc k) b1"
      by (intro run_step) (auto intro: step.intros)
    from Cons.IH[OF this b1(2)] show ?thesis by simp
  qed
qed
lemma env_rows_results:
  "result (get_extended_description (env_rows 0))
     = Returned (None, ''ERROR after retries: connection refused'')"
  "0 < i \<Longrightarrow> result (get_extended_description (env_rows i)) = Returned (Some 7, ''ok'')"
  using result_env_all_fail result_env_third_try by (simp_all add: env_rows_def)

lemma start_five:
  "start_batch MAX_CONCURRENT_REQUESTS 5
     = \<lparr>sem_value = 2, tasks = [Pending, Pending, Pending, Pending, Pending]\<rparr>"
  by (simp add: start_batch_def MAX_CONCURRENT_REQUESTS_def eval_nat_numeral)

lemma play_five:
  "play env_rows five_schedule (start_batch MAX_CONCURRENT_REQUESTS 5) = Some five_done"
  unfolding start_five
  by (simp add: five_schedule_def five_done_def enter_def leave_def env_rows_results)

lemma third_blocked:
  "play env_rows [Enter 0, Enter 1, Enter 2] (start_batch MAX_CONCURRENT_REQUESTS 5) = None"
  unfolding start_five by (simp add: enter_def)

theorem gate_caps_and_completes_witness:
  "run_of env_rows MAX_CONCURRENT_REQUESTS 5 10 five_done
   \<and> 0 < MAX_CONCURRENT_REQUESTS \<and> stuck env_rows five_done
   \<and> in_flight five_done \<le> MAX_CONCURRENT_REQUESTS
   \<and> length (tasks five_done) = 5
   \<and> tasks five_done
       = map (\<lambda>i. Completed (result (get_extended_description (env_rows i)))) [0..<5]
   \<and> play env_rows [Enter 0, Enter 1, Enter 2] (start_batch MAX_CONCURRENT_REQUESTS 5) = None"
proof -
  have "run_of env_rows MAX_CONCURRENT_REQUESTS 5 (0 + length five_schedule) five_done"
    by (rule play_run[OF run_start play_five])
  moreover have "0 + length five_schedule = 10" by (simp add: five_schedule_def)
  ultimately have r: "run_of env_rows MAX_CONCURRENT_REQUESTS 5 10 five_done" by simp
  have c: "0 < MAX_CONCURRENT_REQUESTS" by (simp add: MAX_CONCURRENT_REQUESTS_def)
  have s: "stuck env_rows five_done" by (simp add: stuck_iff five_done_def)
  from gate_caps_and_completes[OF r] c s
  have "in_flight five_done \<le> MAX_CONCURRENT_REQUESTS \<and> length (tasks five_done) = 5
      \<and> tasks five_done
          = map (\<lambda>i. Completed (result (get_extended_description (env_rows i)))) [0..<5]"
    by blast
  with r c s third_blocked show ?thesis by blast
qed

end
